theory Spec2Isabelle
  imports Main "HOL-Library.Multiset"
begin

section \<open>TaskFlow: the sync engine of \<^verbatim>\<open>scripts/task-sync.mjs\<close>\<close>

text \<open>
  A shallow embedding of \<^verbatim>\<open>src/scripts/task-sync.mjs\<close> over the schema of
  \<^verbatim>\<open>src/schema/taskflow.sql\<close>. The SQLite store is an explicit state (a record
  of its four tables), every statement is a function on that state, a failing statement is
  an error value that leaves the state as the statements before it left it, and the clock
  and the file system are arguments.
\<close>

subsection \<open>Strings\<close>

text \<open>
  A JavaScript string is a sequence of UTF-16 code units; a code unit is a natural number.
  \<open>js\<close> writes an ASCII literal of the source.
\<close>

type_synonym jsstring = "nat list"

definition js :: "string \<Rightarrow> jsstring" where
  "js s = map of_char s"

text \<open>
  SQLite compares \<^verbatim>\<open>TEXT\<close> values with the \<^verbatim>\<open>BINARY\<close> collation, byte by byte; on
  the strings of this development (ASCII timestamps and ids) that is the lexicographic
  order of the code units.
\<close>

fun binary_less :: "jsstring \<Rightarrow> jsstring \<Rightarrow> bool" where
  "binary_less [] [] = False"
| "binary_less [] (y # ys) = True"
| "binary_less (x # xs) [] = False"
| "binary_less (x # xs) (y # ys) = (x < y \<or> (x = y \<and> binary_less xs ys))"

definition binary_le :: "jsstring \<Rightarrow> jsstring \<Rightarrow> bool" where
  "binary_le a b = (a = b \<or> binary_less a b)"

text \<open>A template literal prints \<^verbatim>\<open>null\<close> for a null value.\<close>

definition show_nullable :: "jsstring option \<Rightarrow> jsstring" where
  "show_nullable v = (case v of None \<Rightarrow> js ''null'' | Some s \<Rightarrow> s)"

text \<open>\<^verbatim>\<open>v || null\<close>: the empty string is falsy.\<close>

definition or_null :: "jsstring option \<Rightarrow> jsstring option" where
  "or_null v = (case v of None \<Rightarrow> None | Some s \<Rightarrow> if s = [] then None else Some s)"

text \<open>\<^verbatim>\<open>v || ''\<close>.\<close>

definition or_empty :: "jsstring option \<Rightarrow> jsstring" where
  "or_empty v = (case v of None \<Rightarrow> [] | Some s \<Rightarrow> s)"

subsection \<open>The clock and the two timestamp formats\<close>

text \<open>
  Time is the number of milliseconds since 1970-01-01T00:00:00Z, as \<^verbatim>\<open>Date.now()\<close>
  returns it. The civil date (year, month, day) of a day number follows the proleptic
  Gregorian calendar, counted in 400-year eras that start on a 1st of March;
  the formats are those of \<^verbatim>\<open>Date.prototype.toISOString\<close>
  (\<^verbatim>\<open>YYYY-MM-DDTHH:MM:SS.sssZ\<close>), of SQLite's \<^verbatim>\<open>datetime('now')\<close>
  (\<^verbatim>\<open>YYYY-MM-DD HH:MM:SS\<close>) and of \<^verbatim>\<open>strftime('%Y-%m-%dT%H:%M:%fZ','now')\<close>, for the
  years 1970 to 9999.
\<close>

definition pad2 :: "nat \<Rightarrow> jsstring" where
  "pad2 n = [48 + n div 10 mod 10, 48 + n mod 10]"

definition pad3 :: "nat \<Rightarrow> jsstring" where
  "pad3 n = [48 + n div 100 mod 10, 48 + n div 10 mod 10, 48 + n mod 10]"

definition pad4 :: "nat \<Rightarrow> jsstring" where
  "pad4 n = [48 + n div 1000 mod 10, 48 + n div 100 mod 10, 48 + n div 10 mod 10, 48 + n mod 10]"

definition month_day :: "nat \<Rightarrow> nat \<Rightarrow> nat \<Rightarrow> nat \<times> nat \<times> nat" where
  "month_day y doy mp =
    (if mp < 10 then (y, mp + 3, doy + 1 - (153 * mp + 2) div 5)
     else (y + 1, mp - 9, doy + 1 - (153 * mp + 2) div 5))"

definition day_of_year :: "nat \<Rightarrow> nat \<Rightarrow> nat \<times> nat \<times> nat" where
  "day_of_year y doy = month_day y doy ((5 * doy + 2) div 153)"

definition year_of_era :: "nat \<Rightarrow> nat \<Rightarrow> nat \<Rightarrow> nat \<times> nat \<times> nat" where
  "year_of_era era doe yoe =
    day_of_year (yoe + era * 400) (doe + yoe div 100 - 365 * yoe - yoe div 4)"

definition day_of_era :: "nat \<Rightarrow> nat \<Rightarrow> nat \<times> nat \<times> nat" where
  "day_of_era era doe =
    year_of_era era doe ((doe + doe div 36524 - doe div 1460 - doe div 146096) div 365)"

definition civil_from_days :: "nat \<Rightarrow> nat \<times> nat \<times> nat" where
  "civil_from_days days = day_of_era ((days + 719468) div 146097) ((days + 719468) mod 146097)"

definition date_part :: "nat \<Rightarrow> jsstring" where
  "date_part ms =
    (case civil_from_days (ms div 86400000) of
      (y, m, d) \<Rightarrow> pad4 y @ js ''-'' @ pad2 m @ js ''-'' @ pad2 d)"

definition time_part :: "nat \<Rightarrow> jsstring" where
  "time_part ms =
    pad2 (ms div 3600000 mod 24) @ js '':'' @ pad2 (ms div 60000 mod 60) @ js '':'' @
    pad2 (ms div 1000 mod 60)"

definition toISOString :: "nat \<Rightarrow> jsstring" where
  "toISOString ms = date_part ms @ js ''T'' @ time_part ms @ js ''.'' @ pad3 (ms mod 1000) @ js ''Z''"

definition sql_datetime :: "nat \<Rightarrow> jsstring" where
  "sql_datetime ms = date_part ms @ js '' '' @ time_part ms"

definition sql_strftime_iso :: "nat \<Rightarrow> jsstring" where
  "sql_strftime_iso ms = toISOString ms"

subsection \<open>The store\<close>

text \<open>
  One record per table of \<^verbatim>\<open>taskflow.sql\<close>. A task as the parser and \<^verbatim>\<open>getDbTasks\<close>
  produce it has eight fields; a row of \<^verbatim>\<open>tasks_v2\<close> extends it with its timestamps.
  A nullable column is an \<open>option\<close>.
\<close>

record task =
  tid :: jsstring
  project_id :: jsstring
  title :: jsstring
  status :: jsstring
  priority :: jsstring
  owner_model :: "jsstring option"
  notes' :: "jsstring option"
  source_file :: jsstring

record task_row = task +
  legacy_key :: "jsstring option"
  created_at :: jsstring
  updated_at :: jsstring

record project =
  p_id :: jsstring
  p_name :: jsstring
  p_description :: jsstring
  p_status :: jsstring
  p_source_file :: jsstring
  p_updated_at :: jsstring

record transition =
  task_id :: jsstring
  from_status :: "jsstring option"
  to_status :: jsstring
  reason :: "jsstring option"
  actor :: "jsstring option"
  actor_model :: "jsstring option"
  at :: jsstring

record sync_row =
  files_hash :: "jsstring option"
  db_hash :: "jsstring option"
  last_sync_at :: "jsstring option"
  lock_owner :: "jsstring option"
  lock_until :: "jsstring option"
  last_result :: "jsstring option"

text \<open>
  The tables in insertion order. \<^verbatim>\<open>sync_state\<close> holds at most the row with id 1
  (\<^verbatim>\<open>CHECK (id = 1)\<close>).
\<close>

record db =
  projects :: "project list"
  tasks_v2 :: "task_row list"
  task_transitions_v2 :: "transition list"
  sync_state :: "sync_row option"

datatype error =
    LockHeld "jsstring option" "jsstring option"
  | BindFailed jsstring
  | CheckFailed jsstring
  | ForeignKeyFailed jsstring

subsection \<open>The lease lock\<close>

definition empty_sync_row :: sync_row where
  "empty_sync_row = \<lparr>files_hash = None, db_hash = None, last_sync_at = None,
     lock_owner = None, lock_until = None, last_result = None\<rparr>"

text \<open>\<^verbatim>\<open>INSERT OR IGNORE INTO sync_state (id, lock_owner, lock_until) VALUES (1, NULL, NULL)\<close>\<close>

definition ensure_singleton :: "db \<Rightarrow> db" where
  "ensure_singleton d =
    (case sync_state d of None \<Rightarrow> d\<lparr>sync_state := Some empty_sync_row\<rparr> | Some r \<Rightarrow> d)"

text \<open>
  The \<^verbatim>\<open>WHERE\<close> clause of the acquiring \<^verbatim>\<open>UPDATE\<close>:
  \<^verbatim>\<open>lock_owner IS NULL OR lock_until < datetime('now')\<close>. A comparison with \<^verbatim>\<open>NULL\<close>
  is not true.
\<close>

definition lock_free :: "nat \<Rightarrow> sync_row \<Rightarrow> bool" where
  "lock_free now r =
    (lock_owner r = None \<or>
     (case lock_until r of None \<Rightarrow> False | Some u \<Rightarrow> binary_less u (sql_datetime now)))"

text \<open>
  \<^verbatim>\<open>acquireLock\<close>: \<open>None\<close> when the lease was taken; otherwise the error that is
  printed before \<^verbatim>\<open>process.exit(1)\<close>, with the owner and expiry read back.
\<close>

definition acquireLock :: "jsstring \<Rightarrow> nat \<Rightarrow> db \<Rightarrow> error option \<times> db" where
  "acquireLock mode now d =
    (let owner = js ''task-sync:'' @ mode;
         until = toISOString (now + 60000);
         d1 = ensure_singleton d
     in case sync_state d1 of
          None \<Rightarrow> (Some (LockHeld None None), d1)
        | Some r \<Rightarrow>
            if lock_free now r
            then (None, d1\<lparr>sync_state := Some (r\<lparr>lock_owner := Some owner, lock_until := Some until\<rparr>)\<rparr>)
            else (Some (LockHeld (lock_owner r) (lock_until r)), d1))"

text \<open>
  \<^verbatim>\<open>releaseLock\<close>: one \<^verbatim>\<open>UPDATE ... WHERE id = 1\<close>, with no condition on the owner.
\<close>

definition releaseLock :: "jsstring \<Rightarrow> nat \<Rightarrow> db \<Rightarrow> db" where
  "releaseLock result now d =
    (case sync_state d of
       None \<Rightarrow> d
     | Some r \<Rightarrow> d\<lparr>sync_state := Some (r\<lparr>lock_owner := None, lock_until := None,
                 last_sync_at := Some (toISOString now), last_result := Some result\<rparr>)\<rparr>)"

text \<open>
  \<^verbatim>\<open>handleSignal\<close>: the exit code and the store; \<open>lockAcquired\<close> is the module's flag.
\<close>

definition handleSignal :: "jsstring \<Rightarrow> bool \<Rightarrow> nat \<Rightarrow> db \<Rightarrow> nat \<times> db" where
  "handleSignal signal lockAcquired now d =
    (let d1 = (if lockAcquired then releaseLock (js ''interrupted: '' @ signal) now d else d)
     in (if signal = js ''SIGTERM'' then 0 else 130, d1))"

subsection \<open>The record parser\<close>

text \<open>
  The character classes of the regular expressions, on code units: \<^verbatim>\<open>\s\<close> (white space
  and line terminators, also what \<^verbatim>\<open>trim\<close> strips), the line terminators that \<^verbatim>\<open>.\<close>
  does not match, \<^verbatim>\<open>[a-z0-9-]\<close>, \<^verbatim>\<open>\d\<close> and \<^verbatim>\<open>\w\<close>.
\<close>

definition is_space :: "nat \<Rightarrow> bool" where
  "is_space c =
    (c = 9 \<or> c = 10 \<or> c = 11 \<or> c = 12 \<or> c = 13 \<or> c = 32 \<or> c = 160 \<or> c = 5760 \<or>
     (8192 \<le> c \<and> c \<le> 8202) \<or> c = 8232 \<or> c = 8233 \<or> c = 8239 \<or> c = 8287 \<or>
     c = 12288 \<or> c = 65279)"

definition is_line_terminator :: "nat \<Rightarrow> bool" where
  "is_line_terminator c = (c = 10 \<or> c = 13 \<or> c = 8232 \<or> c = 8233)"

definition is_id_char :: "nat \<Rightarrow> bool" where
  "is_id_char c = ((97 \<le> c \<and> c \<le> 122) \<or> (48 \<le> c \<and> c \<le> 57) \<or> c = 45)"

definition is_digit :: "nat \<Rightarrow> bool" where
  "is_digit c = (48 \<le> c \<and> c \<le> 57)"

definition is_word :: "nat \<Rightarrow> bool" where
  "is_word c = ((97 \<le> c \<and> c \<le> 122) \<or> (65 \<le> c \<and> c \<le> 90) \<or> (48 \<le> c \<and> c \<le> 57) \<or> c = 95)"

definition trimEnd :: "jsstring \<Rightarrow> jsstring" where
  "trimEnd s = rev (dropWhile is_space (rev s))"

definition trim :: "jsstring \<Rightarrow> jsstring" where
  "trim s = trimEnd (dropWhile is_space s)"

fun strip_prefix :: "jsstring \<Rightarrow> jsstring \<Rightarrow> jsstring option" where
  "strip_prefix [] s = Some s"
| "strip_prefix (p # ps) [] = None"
| "strip_prefix (p # ps) (c # cs) = (if p = c then strip_prefix ps cs else None)"

definition starts_with :: "jsstring \<Rightarrow> jsstring \<Rightarrow> bool" where
  "starts_with s p = (strip_prefix p s \<noteq> None)"

definition ends_with :: "jsstring \<Rightarrow> jsstring \<Rightarrow> bool" where
  "ends_with s suf = (length suf \<le> length s \<and> drop (length s - length suf) s = suf)"

text \<open>\<^verbatim>\<open>Array.prototype.join\<close>.\<close>

fun join :: "jsstring \<Rightarrow> jsstring list \<Rightarrow> jsstring" where
  "join sep [] = []"
| "join sep [x] = x"
| "join sep (x # y # ys) = x @ sep @ join sep (y # ys)"

text \<open>\<^verbatim>\<open>content.split(/\r?\n/)\<close>: a line ends at a line feed, and a carriage return just
  before it belongs to the separator.\<close>

fun cons_head :: "nat \<Rightarrow> jsstring list \<Rightarrow> jsstring list" where
  "cons_head c [] = [[c]]"
| "cons_head c (l # ls) = (c # l) # ls"

fun split_lines :: "jsstring \<Rightarrow> jsstring list" where
  "split_lines [] = [[]]"
| "split_lines [c] = (if c = 10 then [[], []] else [[c]])"
| "split_lines (c # c' # cs) =
    (if c = 10 then [] # split_lines (c' # cs)
     else if c = 13 \<and> c' = 10 then [] # split_lines cs
     else cons_head c (split_lines (c' # cs)))"

text \<open>
  \<^verbatim>\<open>toLowerCase\<close>, as far as the lookup in \<^verbatim>\<open>STATUS_MAP\<close> can tell: the letters A to Z
  and the Kelvin sign are the only code units whose lower case is an ASCII letter.
\<close>

definition to_lower :: "nat \<Rightarrow> nat" where
  "to_lower c = (if 65 \<le> c \<and> c \<le> 90 then c + 32 else if c = 8490 then 107 else c)"

definition to_upper_word :: "nat \<Rightarrow> nat" where
  "to_upper_word c = (if 97 \<le> c \<and> c \<le> 122 then c - 32 else c)"

text \<open>
  \<^verbatim>\<open>STATUS_MAP[normalized] || null\<close>. \<^verbatim>\<open>STATUS_MAP\<close> is an object literal, so the lookup
  also finds the properties every object inherits. Two of them have a lower-case name:
  \<^verbatim>\<open>constructor\<close>, a function, and \<^verbatim>\<open>__proto__\<close>, an object. Both are truthy and neither
  is a string; such a status is held as the text a template literal prints for it, which
  is how \<^verbatim>\<open>hashTasks\<close> and the changes listed by \<^verbatim>\<open>diffTasks\<close> read it.
\<close>

definition STATUS_MAP :: "(jsstring \<times> jsstring) list" where
  "STATUS_MAP =
    [(js ''in progress'', js ''in_progress''),
     (js ''pending validation'', js ''pending_validation''),
     (js ''backlog'', js ''backlog''),
     (js ''done'', js ''done''),
     (js ''blocked'', js ''blocked'')]"

text \<open>\<^verbatim>\<open>line.match(/^## (.+)$/)\<close>: the captured heading text.\<close>

definition header_match :: "jsstring \<Rightarrow> jsstring option" where
  "header_match line =
    (case strip_prefix (js ''## '') line of
       None \<Rightarrow> None
     | Some h \<Rightarrow> if h \<noteq> [] \<and> list_all (\<lambda>c. \<not> is_line_terminator c) h then Some h else None)"

definition inherited_property :: "jsstring \<Rightarrow> jsstring option" where
  "inherited_property k =
    (if k = js ''constructor'' then Some (js ''function Object() { [native code] }'')
     else if k = js ''__proto__'' then Some (js ''[object Object]'')
     else None)"

definition status_of_heading :: "jsstring \<Rightarrow> jsstring option" where
  "status_of_heading h =
    (case map_of STATUS_MAP (map to_lower (trim h)) of
       Some s \<Rightarrow> Some s
     | None \<Rightarrow> inherited_property (map to_lower (trim h)))"

text \<open>
  The tail of \<^verbatim>\<open>TASK_RE\<close> after the closing parenthesis of the id,
  \<^verbatim>\<open>\s*(?:\[([^\]]*)\])?\s*(?:\[([^\]]*)\])?\s*(.+)$\<close>, as the backtracking matcher runs
  it: each piece lists the ways it can match in the order they are tried, and the match is
  the first way that reaches the end of the line.
\<close>

definition ws_splits :: "jsstring \<Rightarrow> jsstring list" where
  "ws_splits s = map (\<lambda>k. drop k s) (rev [0..<Suc (length (takeWhile is_space s))])"

definition opt_tag :: "jsstring \<Rightarrow> (jsstring option \<times> jsstring) list" where
  "opt_tag s =
    (case s of
       [] \<Rightarrow> []
     | c # r \<Rightarrow>
         if c = 91 \<and> 93 \<in> set r
         then [(Some (takeWhile (\<lambda>x. x \<noteq> 93) r), tl (dropWhile (\<lambda>x. x \<noteq> 93) r))]
         else []) @ [(None, s)]"

definition dot_plus_end :: "jsstring \<Rightarrow> jsstring list" where
  "dot_plus_end s = (if s \<noteq> [] \<and> list_all (\<lambda>c. \<not> is_line_terminator c) s then [s] else [])"

definition match_title :: "jsstring option \<Rightarrow> jsstring option \<Rightarrow> jsstring \<Rightarrow> (jsstring option \<times> jsstring option \<times> jsstring) list" where
  "match_title tag1 tag2 r4 =
    concat (map (\<lambda>r5. map (\<lambda>ttl. (tag1, tag2, ttl)) (dot_plus_end r5)) (ws_splits r4))"

definition match_tag2 :: "jsstring option \<Rightarrow> jsstring \<Rightarrow> (jsstring option \<times> jsstring option \<times> jsstring) list" where
  "match_tag2 tag1 r2 =
    concat (map (\<lambda>r3. concat (map (\<lambda>(tag2, r4). match_title tag1 tag2 r4) (opt_tag r3)))
      (ws_splits r2))"

definition match_tail :: "jsstring \<Rightarrow> (jsstring option \<times> jsstring option \<times> jsstring) list" where
  "match_tail s =
    concat (map (\<lambda>r1. concat (map (\<lambda>(tag1, r2). match_tag2 tag1 r2) (opt_tag r1)))
      (ws_splits s))"

text \<open>\<^verbatim>\<open>line.match(TASK_RE)\<close>: the id, the two tags and the title, when the line matches.\<close>

definition match_id :: "jsstring \<Rightarrow> (jsstring \<times> jsstring option \<times> jsstring option \<times> jsstring) option" where
  "match_id r =
    (if takeWhile is_id_char r = [] then None
     else case dropWhile is_id_char r of
       [] \<Rightarrow> None
     | c # r' \<Rightarrow>
         if c = 41
         then (case match_tail r' of [] \<Rightarrow> None | m # ms \<Rightarrow> Some (takeWhile is_id_char r, m))
         else None)"

definition match_task :: "jsstring \<Rightarrow> (jsstring \<times> jsstring option \<times> jsstring option \<times> jsstring) option" where
  "match_task line =
    (case strip_prefix (js ''- ['') line of
       None \<Rightarrow> None
     | Some [] \<Rightarrow> None
     | Some (c # r) \<Rightarrow>
         if c = 32 \<or> c = 120
         then (case strip_prefix (js ''] (task:'') r of None \<Rightarrow> None | Some r' \<Rightarrow> match_id r')
         else None)"

text \<open>\<^verbatim>\<open>/^P\d$/.test(tag)\<close>\<close>

definition is_priority_tag :: "jsstring \<Rightarrow> bool" where
  "is_priority_tag tag = (case tag of [p, d] \<Rightarrow> p = 80 \<and> is_digit d | _ \<Rightarrow> False)"

text \<open>
  The loop over \<^verbatim>\<open>[tag1, tag2]\<close>: one step takes the priority and model so far; an absent
  or empty tag is skipped.
\<close>

definition classify_tag :: "jsstring option \<Rightarrow> jsstring \<times> jsstring option \<Rightarrow> jsstring \<times> jsstring option" where
  "classify_tag tag pm =
    (case tag of
       None \<Rightarrow> pm
     | Some t \<Rightarrow> if t = [] then pm else if is_priority_tag t then (t, snd pm) else (fst pm, Some t))"

text \<open>\<^verbatim>\<open>lines[i + 1].match(/^\s+- note:\s*(.+)$/)\<close>, trimmed.\<close>

definition note_match :: "jsstring \<Rightarrow> jsstring option" where
  "note_match line =
    (if takeWhile is_space line = [] then None
     else case strip_prefix (js ''- note:'') (dropWhile is_space line) of
       None \<Rightarrow> None
     | Some r \<Rightarrow> (case concat (map dot_plus_end (ws_splits r)) of [] \<Rightarrow> None | m # ms \<Rightarrow> Some (trim m)))"

definition next_note :: "jsstring list \<Rightarrow> jsstring option" where
  "next_note rest = (case rest of [] \<Rightarrow> None | l # ls \<Rightarrow> note_match l)"

definition make_task ::
  "jsstring \<Rightarrow> jsstring \<Rightarrow> jsstring \<times> jsstring option \<times> jsstring option \<times> jsstring \<Rightarrow> jsstring option \<Rightarrow> task" where
  "make_task slug currentStatus m note =
    (case m of (i, tag1, tag2, ttl) \<Rightarrow>
      \<lparr>tid = i, project_id = slug, title = trim ttl, status = currentStatus,
       priority = fst (classify_tag tag2 (classify_tag tag1 (js ''P2'', None))),
       owner_model = snd (classify_tag tag2 (classify_tag tag1 (js ''P2'', None))),
       notes' = note, source_file = js ''tasks/'' @ slug @ js ''-tasks.md''\<rparr>)"

text \<open>The loop of \<^verbatim>\<open>parseTaskFile\<close> over the lines, with the current status.\<close>

fun parse_lines :: "jsstring \<Rightarrow> jsstring option \<Rightarrow> jsstring list \<Rightarrow> task list" where
  "parse_lines slug cur [] = []"
| "parse_lines slug cur (line # rest) =
    (case header_match line of
       Some h \<Rightarrow> parse_lines slug (status_of_heading h) rest
     | None \<Rightarrow>
        (case cur of
           None \<Rightarrow> parse_lines slug cur rest
         | Some st \<Rightarrow>
            (case match_task line of
               None \<Rightarrow> parse_lines slug cur rest
             | Some m \<Rightarrow> make_task slug st m (next_note rest) # parse_lines slug cur rest)))"

text \<open>
  The tasks directory is a list of (file name, content) in \<^verbatim>\<open>readdirSync\<close> order.
  \<^verbatim>\<open>slug_of\<close> is \<^verbatim>\<open>f.replace(/-tasks\.md$/, '')\<close> on a name with that suffix.
\<close>

type_synonym tasks_dir = "(jsstring \<times> jsstring) list"

definition slug_of :: "jsstring \<Rightarrow> jsstring" where
  "slug_of f = (if ends_with f (js ''-tasks.md'') then take (length f - 9) f else f)"

definition parseTaskFile :: "jsstring \<Rightarrow> jsstring \<Rightarrow> task list" where
  "parseTaskFile f content = parse_lines (slug_of f) None (split_lines content)"

definition task_files :: "tasks_dir \<Rightarrow> tasks_dir" where
  "task_files fs = filter (\<lambda>(f, c). ends_with f (js ''-tasks.md'')) fs"

definition parseAllFiles :: "tasks_dir \<Rightarrow> task list" where
  "parseAllFiles fs = concat (map (\<lambda>(f, c). parseTaskFile f c) (task_files fs))"

subsection \<open>Library functions taken as parameters\<close>

text \<open>
  Three functions of the platform are arguments of the model: the SHA-256 digest in
  hexadecimal (\<^verbatim>\<open>createHash('sha256').update(data).digest('hex')\<close>),
  \<^verbatim>\<open>String.prototype.localeCompare\<close>, and the message of the exception a failed
  statement throws.
\<close>

record platform =
  sha256_hex :: "jsstring \<Rightarrow> jsstring"
  localeCompare :: "jsstring \<Rightarrow> jsstring \<Rightarrow> int"
  error_message :: "error \<Rightarrow> jsstring"

text \<open>
  \<^verbatim>\<open>Array.prototype.sort\<close> is stable: insertion from the right keeps the input order of
  elements the comparator does not separate. \<open>le a b\<close> stands for
  \<open>compare a b \<le> 0\<close>.
\<close>

fun insert_by :: "('a \<Rightarrow> 'a \<Rightarrow> bool) \<Rightarrow> 'a \<Rightarrow> 'a list \<Rightarrow> 'a list" where
  "insert_by le x [] = [x]"
| "insert_by le x (y # ys) = (if le x y then x # y # ys else y # insert_by le x ys)"

definition sort_by :: "('a \<Rightarrow> 'a \<Rightarrow> bool) \<Rightarrow> 'a list \<Rightarrow> 'a list" where
  "sort_by le xs = foldr (insert_by le) xs []"

subsection \<open>Reading the store\<close>

text \<open>\<^verbatim>\<open>SELECT id, ..., source_file FROM tasks_v2 ORDER BY id\<close>\<close>

definition getDbTasks :: "db \<Rightarrow> task list" where
  "getDbTasks d = sort_by (\<lambda>a b. binary_le (tid a) (tid b)) (map task.truncate (tasks_v2 d))"

subsection \<open>The fingerprint\<close>

definition hash_line :: "task \<Rightarrow> jsstring" where
  "hash_line t =
    tid t @ js ''|'' @ status t @ js ''|'' @ priority t @ js ''|'' @ or_empty (owner_model t) @
    js ''|'' @ title t @ js ''|'' @ or_empty (notes' t)"

definition hash_data :: "platform \<Rightarrow> task list \<Rightarrow> jsstring" where
  "hash_data p tasks =
    join [10] (map hash_line (sort_by (\<lambda>a b. localeCompare p (tid a) (tid b) \<le> 0) tasks))"

definition hashTasks :: "platform \<Rightarrow> task list \<Rightarrow> jsstring" where
  "hashTasks p tasks = take 16 (sha256_hex p (hash_data p tasks))"

subsection \<open>The diff engine\<close>

text \<open>
  A JavaScript \<^verbatim>\<open>Map\<close> is an association list in insertion order; setting a key that
  is present replaces its value in place.
\<close>

fun map_set :: "('k \<times> 'v) list \<Rightarrow> 'k \<Rightarrow> 'v \<Rightarrow> ('k \<times> 'v) list" where
  "map_set [] k v = [(k, v)]"
| "map_set ((k', v') # m) k v = (if k' = k then (k, v) # m else (k', v') # map_set m k v)"

definition new_Map :: "('k \<times> 'v) list \<Rightarrow> ('k \<times> 'v) list" where
  "new_Map kvs = foldl (\<lambda>m (k, v). map_set m k v) [] kvs"

definition task_map :: "task list \<Rightarrow> (jsstring \<times> task) list" where
  "task_map ts = new_Map (map (\<lambda>t. (tid t, t)) ts)"

datatype diff =
    FileOnly jsstring task
  | Changed jsstring "jsstring list" task task
  | DbOnly jsstring task

definition arrow :: jsstring where
  "arrow = [32, 8594, 32]"

definition field_changes :: "task \<Rightarrow> task \<Rightarrow> jsstring list" where
  "field_changes ft dt =
    (if status ft \<noteq> status dt then [js ''status: '' @ status dt @ arrow @ status ft] else []) @
    (if priority ft \<noteq> priority dt then [js ''priority: '' @ priority dt @ arrow @ priority ft] else []) @
    (if or_null (owner_model ft) \<noteq> or_null (owner_model dt)
     then [js ''model: '' @ show_nullable (owner_model dt) @ arrow @ show_nullable (owner_model ft)]
     else []) @
    (if title ft \<noteq> title dt then [js ''title changed''] else [])"

definition diff_file_entry :: "(jsstring \<times> task) list \<Rightarrow> jsstring \<times> task \<Rightarrow> diff list" where
  "diff_file_entry dbMap e =
    (case map_of dbMap (fst e) of
       None \<Rightarrow> [FileOnly (fst e) (snd e)]
     | Some dt \<Rightarrow>
         if field_changes (snd e) dt \<noteq> []
         then [Changed (fst e) (field_changes (snd e) dt) (snd e) dt]
         else [])"

definition diff_db_entry :: "(jsstring \<times> task) list \<Rightarrow> jsstring \<times> task \<Rightarrow> diff list" where
  "diff_db_entry fileMap e =
    (case map_of fileMap (fst e) of None \<Rightarrow> [DbOnly (fst e) (snd e)] | Some ft \<Rightarrow> [])"

definition diffTasks :: "task list \<Rightarrow> task list \<Rightarrow> diff list" where
  "diffTasks fileTasks dbTasks =
    concat (map (diff_file_entry (task_map dbTasks)) (task_map fileTasks)) @
    concat (map (diff_db_entry (task_map fileTasks)) (task_map dbTasks))"

subsection \<open>The statements of the apply\<close>

text \<open>
  A statement returns the new store, or the error it throws; SQLite leaves the store as it
  was when a statement fails. \<^verbatim>\<open>run\<close> throws before the statement starts when an argument
  is a function or an object, which here only the status of an inherited property is. The
  \<^verbatim>\<open>CHECK\<close> constraints of \<^verbatim>\<open>tasks_v2\<close> are tested on the values bound, the foreign key on
  the row inserted.
\<close>

definition bindable :: "jsstring \<Rightarrow> bool" where
  "bindable s =
    (s \<noteq> js ''function Object() { [native code] }'' \<and> s \<noteq> js ''[object Object]'')"

definition valid_status :: "jsstring \<Rightarrow> bool" where
  "valid_status s =
    (s = js ''backlog'' \<or> s = js ''in_progress'' \<or> s = js ''pending_validation'' \<or>
     s = js ''done'' \<or> s = js ''blocked'')"

definition valid_priority :: "jsstring \<Rightarrow> bool" where
  "valid_priority s =
    (s = js ''P0'' \<or> s = js ''P1'' \<or> s = js ''P2'' \<or> s = js ''P3'' \<or> s = js ''P9'')"

definition has_task :: "db \<Rightarrow> jsstring \<Rightarrow> bool" where
  "has_task d i = list_ex (\<lambda>r. tid r = i) (tasks_v2 d)"

definition has_project :: "db \<Rightarrow> jsstring \<Rightarrow> bool" where
  "has_project d i = list_ex (\<lambda>r. p_id r = i) (projects d)"

definition new_row :: "nat \<Rightarrow> task \<Rightarrow> task_row" where
  "new_row now t =
    \<lparr>tid = tid t, project_id = project_id t, title = title t, status = status t,
     priority = priority t, owner_model = owner_model t, notes' = notes' t,
     source_file = source_file t, legacy_key = None,
     created_at = sql_strftime_iso now, updated_at = sql_strftime_iso now\<rparr>"

text \<open>The \<^verbatim>\<open>DO UPDATE SET\<close> branch, on the stored row \<open>r\<close>.\<close>

definition comparison_changed :: "task \<Rightarrow> task_row \<Rightarrow> bool" where
  "comparison_changed t r =
    (title r \<noteq> title t \<or> status r \<noteq> status t \<or> priority r \<noteq> priority t \<or>
     or_empty (owner_model r) \<noteq> or_empty (owner_model t))"

definition coalesce :: "jsstring option \<Rightarrow> jsstring option \<Rightarrow> jsstring option" where
  "coalesce a b = (case a of None \<Rightarrow> b | Some v \<Rightarrow> Some v)"

definition on_conflict :: "nat \<Rightarrow> task \<Rightarrow> task_row \<Rightarrow> task_row" where
  "on_conflict now t r =
    r\<lparr>title := title t, status := status t, priority := priority t,
      owner_model := owner_model t, notes' := coalesce (notes' t) (notes' r),
      source_file := source_file t,
      updated_at := (if comparison_changed t r then sql_strftime_iso now else updated_at r)\<rparr>"

definition upsert :: "nat \<Rightarrow> task \<Rightarrow> db \<Rightarrow> error + db" where
  "upsert now t d =
    (if \<not> bindable (status t) then Inl (BindFailed (js ''status''))
     else if \<not> valid_status (status t) then Inl (CheckFailed (js ''status''))
     else if \<not> valid_priority (priority t) then Inl (CheckFailed (js ''priority''))
     else if has_task d (tid t)
     then Inr (d\<lparr>tasks_v2 := map (\<lambda>r. if tid r = tid t then on_conflict now t r else r) (tasks_v2 d)\<rparr>)
     else if \<not> has_project d (project_id t) then Inl (ForeignKeyFailed (js ''project_id''))
     else Inr (d\<lparr>tasks_v2 := tasks_v2 d @ [new_row now t]\<rparr>))"

definition insertTransition ::
  "nat \<Rightarrow> jsstring \<Rightarrow> jsstring option \<Rightarrow> jsstring \<Rightarrow> jsstring \<Rightarrow> db \<Rightarrow> error + db" where
  "insertTransition now i from to why d =
    (if \<not> has_task d i then Inl (ForeignKeyFailed (js ''task_id''))
     else Inr (d\<lparr>task_transitions_v2 := task_transitions_v2 d @
       [\<lparr>task_id = i, from_status = from, to_status = to, reason = Some why,
         actor = Some (js ''sync''), actor_model = None, at = sql_strftime_iso now\<rparr>]\<rparr>))"

text \<open>
  Missing projects: \<^verbatim>\<open>slug.replace(/-/g, ' ').replace(/\b\w/g, c => c.toUpperCase())\<close> names
  the project; \<open>prev\<close> says whether the code unit before is a word character.
\<close>

fun capitalize_words :: "bool \<Rightarrow> jsstring \<Rightarrow> jsstring" where
  "capitalize_words prev [] = []"
| "capitalize_words prev (c # cs) =
    (if is_word c \<and> \<not> prev then to_upper_word c else c) # capitalize_words (is_word c) cs"

definition project_name :: "jsstring \<Rightarrow> jsstring" where
  "project_name slug = capitalize_words False (map (\<lambda>c. if c = 45 then 32 else c) slug)"

definition upsertProject :: "nat \<Rightarrow> jsstring \<Rightarrow> db \<Rightarrow> db" where
  "upsertProject now slug d =
    (if has_project d slug then d
     else d\<lparr>projects := projects d @
       [\<lparr>p_id = slug, p_name = project_name slug, p_description = [], p_status = js ''active'',
         p_source_file = js ''tasks/'' @ slug @ js ''-tasks.md'',
         p_updated_at = sql_strftime_iso now\<rparr>]\<rparr>)"

fun create_missing_projects :: "nat \<Rightarrow> jsstring list \<Rightarrow> jsstring list \<Rightarrow> task list \<Rightarrow> db \<Rightarrow> db" where
  "create_missing_projects now known missing [] d = d"
| "create_missing_projects now known missing (t # ts) d =
    (if project_id t \<notin> set known \<and> project_id t \<notin> set missing
     then create_missing_projects now known (project_id t # missing) ts (upsertProject now (project_id t) d)
     else create_missing_projects now known missing ts d)"

subsection \<open>Applying a diff to the store\<close>

text \<open>
  One turn of the loop over \<open>diffs\<close>. An error stops the turn where it is thrown: the
  store returned with it holds what the statements before it wrote.
\<close>

definition apply_added :: "nat \<Rightarrow> task \<Rightarrow> db \<Rightarrow> error option \<times> db" where
  "apply_added now t d =
    (case upsert now t d of
       Inl e \<Rightarrow> (Some e, d)
     | Inr d1 \<Rightarrow>
        (case insertTransition now (tid t) None (status t) (js ''added via file sync'') d1 of
           Inl e \<Rightarrow> (Some e, d1)
         | Inr d2 \<Rightarrow> (None, d2)))"

definition apply_changed :: "nat \<Rightarrow> jsstring list \<Rightarrow> task \<Rightarrow> task \<Rightarrow> db \<Rightarrow> error option \<times> db" where
  "apply_changed now changes t dbTask d =
    (case upsert now t d of
       Inl e \<Rightarrow> (Some e, d)
     | Inr d1 \<Rightarrow>
        if status dbTask \<noteq> status t
        then (case insertTransition now (tid t) (Some (status dbTask)) (status t)
                     (js ''file sync: '' @ join (js '', '') changes) d1 of
                Inl e \<Rightarrow> (Some e, d1)
              | Inr d2 \<Rightarrow> (None, d2))
        else (None, d1))"

fun apply_diff :: "nat \<Rightarrow> diff \<Rightarrow> db \<Rightarrow> error option \<times> db" where
  "apply_diff now (FileOnly i t) d = apply_added now t d"
| "apply_diff now (Changed i changes t dbTask) d = apply_changed now changes t dbTask d"
| "apply_diff now (DbOnly i t) d = (None, d)"

fun apply_diffs :: "nat \<Rightarrow> diff list \<Rightarrow> db \<Rightarrow> error option \<times> db" where
  "apply_diffs now [] d = (None, d)"
| "apply_diffs now (x # xs) d =
    (case apply_diff now x d of
       (Some e, d1) \<Rightarrow> (Some e, d1)
     | (None, d1) \<Rightarrow> apply_diffs now xs d1)"

text \<open>\<^verbatim>\<open>UPDATE sync_state SET files_hash = ?, db_hash = ? WHERE id = 1\<close>\<close>

definition update_hashes :: "jsstring \<Rightarrow> jsstring \<Rightarrow> db \<Rightarrow> db" where
  "update_hashes fh dh d =
    (case sync_state d of
       None \<Rightarrow> d
     | Some r \<Rightarrow> d\<lparr>sync_state := Some (r\<lparr>files_hash := Some fh, db_hash := Some dh\<rparr>)\<rparr>)"

record sync_result =
  added :: nat
  updated :: nat
  dbOnly :: nat

fun is_file_only :: "diff \<Rightarrow> bool" where
  "is_file_only (FileOnly i t) = True"
| "is_file_only x = False"

fun is_changed :: "diff \<Rightarrow> bool" where
  "is_changed (Changed i c t dt) = True"
| "is_changed x = False"

fun is_db_only :: "diff \<Rightarrow> bool" where
  "is_db_only (DbOnly i t) = True"
| "is_db_only x = False"

text \<open>
  \<^verbatim>\<open>syncFilesToDb\<close>: the outcome (the error thrown, or the counts returned) and the store
  it leaves. \<open>fs\<close> is the tasks directory, read again for the fingerprint of the files.
\<close>

definition finish_sync :: "platform \<Rightarrow> tasks_dir \<Rightarrow> diff list \<Rightarrow> db \<Rightarrow> sync_result \<times> db" where
  "finish_sync p fs diffs d =
    (\<lparr>added = length (filter is_file_only diffs), updated = length (filter is_changed diffs),
      dbOnly = length (filter is_db_only diffs)\<rparr>,
     update_hashes (hashTasks p (parseAllFiles fs)) (hashTasks p (getDbTasks d)) d)"

definition syncFilesToDb ::
  "platform \<Rightarrow> nat \<Rightarrow> tasks_dir \<Rightarrow> task list \<Rightarrow> task list \<Rightarrow> diff list \<Rightarrow> db \<Rightarrow> (error + sync_result) \<times> db" where
  "syncFilesToDb p now fs fileTasks dbTasks diffs d =
    (case apply_diffs now diffs
            (create_missing_projects now (map p_id (projects d)) [] fileTasks d) of
       (Some e, d1) \<Rightarrow> (Inl e, d1)
     | (None, d1) \<Rightarrow> (case finish_sync p fs diffs d1 of (r, d2) \<Rightarrow> (Inr r, d2)))"

subsection \<open>The projector\<close>

definition STATUS_SECTIONS :: "(jsstring \<times> jsstring) list" where
  "STATUS_SECTIONS =
    [(js ''in_progress'', js ''In Progress''),
     (js ''pending_validation'', js ''Pending Validation''),
     (js ''blocked'', js ''Blocked''),
     (js ''backlog'', js ''Backlog''),
     (js ''done'', js ''Done'')]"

text \<open>The preamble of an existing file: its lines before the first that starts a section.\<close>

definition header_of_content :: "jsstring \<Rightarrow> jsstring" where
  "header_of_content content =
    trimEnd (join [10] (takeWhile (\<lambda>l. \<not> starts_with l (js ''## '')) (split_lines content)))"

definition read_headers :: "tasks_dir \<Rightarrow> (jsstring \<times> jsstring) list" where
  "read_headers fs =
    foldl (\<lambda>m (f, c). map_set m (slug_of f) (header_of_content c)) [] (task_files fs)"

text \<open>\<^verbatim>\<open>headers.get(slug) || `# Tasks: ${slug}`\<close>\<close>

definition header_for :: "(jsstring \<times> jsstring) list \<Rightarrow> jsstring \<Rightarrow> jsstring" where
  "header_for headers slug =
    (case map_of headers slug of
       None \<Rightarrow> js ''# Tasks: '' @ slug
     | Some h \<Rightarrow> if h = [] then js ''# Tasks: '' @ slug else h)"

definition render_task :: "task \<Rightarrow> jsstring" where
  "render_task t =
    js ''- '' @ (if status t = js ''done'' then js ''[x]'' else js ''[ ]'') @
    js '' (task:'' @ tid t @ js '') ['' @ priority t @ js '']'' @
    (case or_null (owner_model t) of None \<Rightarrow> [] | Some m \<Rightarrow> js '' ['' @ m @ js '']'') @
    js '' '' @ title t @ [10] @
    (case or_null (notes' t) of None \<Rightarrow> [] | Some n \<Rightarrow> js ''  - note: '' @ n @ [10])"

text \<open>
  \<^verbatim>\<open>a.priority.localeCompare(b.priority) || a.id.localeCompare(b.id)\<close>, as \<open>\<le> 0\<close>.
\<close>

definition section_le :: "platform \<Rightarrow> task \<Rightarrow> task \<Rightarrow> bool" where
  "section_le p a b =
    (if localeCompare p (priority a) (priority b) \<noteq> 0
     then localeCompare p (priority a) (priority b) \<le> 0
     else localeCompare p (tid a) (tid b) \<le> 0)"

definition section_tasks :: "platform \<Rightarrow> task list \<Rightarrow> jsstring \<Rightarrow> task list" where
  "section_tasks p tasks section = sort_by (section_le p) (filter (\<lambda>t. status t = section) tasks)"

definition render_section :: "platform \<Rightarrow> task list \<Rightarrow> jsstring \<times> jsstring \<Rightarrow> jsstring" where
  "render_section p tasks sec =
    js ''## '' @ snd sec @ [10] @ concat (map render_task (section_tasks p tasks (fst sec))) @ [10]"

definition render_file :: "platform \<Rightarrow> jsstring \<Rightarrow> task list \<Rightarrow> jsstring" where
  "render_file p header tasks =
    header @ [10, 10] @ concat (map (render_section p tasks) STATUS_SECTIONS)"

text \<open>\<^verbatim>\<open>writeFileSync\<close> replaces the content of a file of that name, or adds the file.\<close>

definition project_file ::
  "platform \<Rightarrow> (jsstring \<times> jsstring) list \<Rightarrow> task list \<Rightarrow> tasks_dir \<Rightarrow> jsstring \<Rightarrow> tasks_dir" where
  "project_file p headers dbTasks fs slug =
    map_set fs (slug @ js ''-tasks.md'')
      (render_file p (header_for headers slug) (filter (\<lambda>t. project_id t = slug) dbTasks))"

text \<open>
  \<^verbatim>\<open>projectDbToFiles\<close>: the directory after one file per project of the store
  (\<^verbatim>\<open>SELECT id FROM projects ORDER BY id\<close>) is written, and their number.
\<close>

definition project_slugs :: "db \<Rightarrow> jsstring list" where
  "project_slugs d = sort_by binary_le (map p_id (projects d))"

definition projectDbToFiles :: "platform \<Rightarrow> task list \<Rightarrow> db \<Rightarrow> tasks_dir \<Rightarrow> tasks_dir \<times> nat" where
  "projectDbToFiles p dbTasks d fs =
    (foldl (project_file p (read_headers fs) dbTasks) fs (project_slugs d),
     length (project_slugs d))"

subsection \<open>The three modes\<close>

text \<open>
  A run of the script returns its exit code, the store and the tasks directory it leaves.
  The clock is read once per run. The startup checks (workspace, tasks directory and
  database file exist) are taken to pass.
\<close>

record check_report =
  report_diffs :: "diff list"
  file_hash :: jsstring
  store_hash :: jsstring
  exit_code :: nat

text \<open>The \<^verbatim>\<open>check\<close> branch, on the variables \<open>fileTasks\<close>, \<open>dbTasks\<close> and \<open>diffs\<close>.\<close>

definition check_mode :: "platform \<Rightarrow> task list \<Rightarrow> task list \<Rightarrow> diff list \<Rightarrow> check_report" where
  "check_mode p fileTasks dbTasks diffs =
    \<lparr>report_diffs = diffs,
     file_hash = hashTasks p fileTasks,
     store_hash = hashTasks p dbTasks,
     exit_code = (if length diffs = 0 then 0 else 1)\<rparr>"

definition run_check :: "platform \<Rightarrow> tasks_dir \<Rightarrow> db \<Rightarrow> check_report" where
  "run_check p fs d =
    check_mode p (parseAllFiles fs) (getDbTasks d) (diffTasks (parseAllFiles fs) (getDbTasks d))"

definition sync_locked :: "platform \<Rightarrow> nat \<Rightarrow> tasks_dir \<Rightarrow> db \<Rightarrow> nat \<times> db" where
  "sync_locked p now fs d =
    (case syncFilesToDb p now fs (parseAllFiles fs) (getDbTasks d)
            (diffTasks (parseAllFiles fs) (getDbTasks d)) d of
       (Inl e, d1) \<Rightarrow> (1, releaseLock (js ''failed: '' @ error_message p e) now d1)
     | (Inr r, d1) \<Rightarrow> (0, releaseLock (js ''ok'') now d1))"

definition run_files_to_db :: "platform \<Rightarrow> nat \<Rightarrow> tasks_dir \<Rightarrow> db \<Rightarrow> nat \<times> db" where
  "run_files_to_db p now fs d =
    (case acquireLock (js ''files-to-db'') now d of
       (Some e, d1) \<Rightarrow> (1, d1)
     | (None, d1) \<Rightarrow> sync_locked p now fs d1)"

definition run_db_to_files :: "platform \<Rightarrow> nat \<Rightarrow> tasks_dir \<Rightarrow> db \<Rightarrow> nat \<times> db \<times> tasks_dir" where
  "run_db_to_files p now fs d =
    (case acquireLock (js ''db-to-files'') now d of
       (Some e, d1) \<Rightarrow> (1, d1, fs)
     | (None, d1) \<Rightarrow>
         (0, releaseLock (js ''ok'') now d1, fst (projectDbToFiles p (getDbTasks d1) d1 fs)))"

definition main :: "platform \<Rightarrow> jsstring \<Rightarrow> nat \<Rightarrow> tasks_dir \<Rightarrow> db \<Rightarrow> nat \<times> db \<times> tasks_dir" where
  "main p mode now fs d =
    (if mode = js ''check'' then (exit_code (run_check p fs d), d, fs)
     else if mode = js ''files-to-db''
     then (fst (run_files_to_db p now fs d), snd (run_files_to_db p now fs d), fs)
     else if mode = js ''db-to-files'' then run_db_to_files p now fs d
     else (1, d, fs))"

subsection \<open>Notions used in the statements\<close>

text \<open>
  The rows of \<^verbatim>\<open>tasks_v2\<close> with a given id; what one entry of a diff writes to them and
  appends to the transitions; the entry \<^verbatim>\<open>diffTasks\<close> produces for an id; and the two
  notions of field equality the diff and the fingerprint use.
\<close>

definition rows :: "db \<Rightarrow> jsstring \<Rightarrow> task_row list" where
  "rows d i = filter (\<lambda>r. tid r = i) (tasks_v2 d)"

fun diff_tids :: "diff \<Rightarrow> jsstring list" where
  "diff_tids (FileOnly i t) = [tid t]"
| "diff_tids (Changed i c t dt) = [tid t]"
| "diff_tids (DbOnly i t) = []"

definition write_rows :: "nat \<Rightarrow> task \<Rightarrow> task_row list \<Rightarrow> task_row list" where
  "write_rows now t rs = (if rs = [] then [new_row now t] else map (on_conflict now t) rs)"

fun diff_write :: "nat \<Rightarrow> diff \<Rightarrow> task_row list \<Rightarrow> task_row list" where
  "diff_write now (FileOnly i t) rs = write_rows now t rs"
| "diff_write now (Changed i c t dt) rs = write_rows now t rs"
| "diff_write now (DbOnly i t) rs = rs"

definition transition_row :: "nat \<Rightarrow> jsstring \<Rightarrow> jsstring option \<Rightarrow> jsstring \<Rightarrow> jsstring \<Rightarrow> transition" where
  "transition_row now i from to why =
    \<lparr>task_id = i, from_status = from, to_status = to, reason = Some why,
     actor = Some (js ''sync''), actor_model = None, at = sql_strftime_iso now\<rparr>"

fun diff_transitions :: "nat \<Rightarrow> diff \<Rightarrow> transition list" where
  "diff_transitions now (FileOnly i t) =
     [transition_row now (tid t) None (status t) (js ''added via file sync'')]"
| "diff_transitions now (Changed i c t dt) =
     (if status dt \<noteq> status t
      then [transition_row now (tid t) (Some (status dt)) (status t)
              (js ''file sync: '' @ join (js '', '') c)]
      else [])"
| "diff_transitions now (DbOnly i t) = []"

text \<open>The entry of \<^verbatim>\<open>diffTasks\<close> that writes the record with id \<open>i\<close>, if any.\<close>

definition diff_for :: "task list \<Rightarrow> task list \<Rightarrow> jsstring \<Rightarrow> diff option" where
  "diff_for f dbt i =
    (case map_of (task_map f) i of
       None \<Rightarrow> None
     | Some ft \<Rightarrow>
        (case map_of (task_map dbt) i of
           None \<Rightarrow> Some (FileOnly i ft)
         | Some dt \<Rightarrow>
            if field_changes ft dt \<noteq> [] then Some (Changed i (field_changes ft dt) ft dt)
            else None))"

text \<open>The ids of the \<^verbatim>\<open>projects\<close> table.\<close>

definition project_ids :: "db \<Rightarrow> jsstring set" where
  "project_ids d = p_id ` set (projects d)"

text \<open>
  Equality on the fields \<^verbatim>\<open>diffTasks\<close> compares, and on the note as the fingerprint
  reads it (\<^verbatim>\<open>null\<close> and the empty string alike).
\<close>

definition same_compared :: "task \<Rightarrow> task \<Rightarrow> bool" where
  "same_compared ft dt =
    (status ft = status dt \<and> priority ft = priority dt \<and>
     or_null (owner_model ft) = or_null (owner_model dt) \<and> title ft = title dt)"

definition same_notes :: "task \<Rightarrow> task \<Rightarrow> bool" where
  "same_notes ft dt = (or_null (notes' ft) = or_null (notes' dt))"

text \<open>
  A record whose fields keep clear of the delimiters of the canonical text: no
  \<^verbatim>\<open>|\<close> in the five fields before the note, no line feed in any of the six.
\<close>

definition delimiter_free :: "task \<Rightarrow> bool" where
  "delimiter_free t =
    (list_all (\<lambda>f. 124 \<notin> set f)
       [tid t, status t, priority t, or_empty (owner_model t), title t] \<and>
     list_all (\<lambda>f. 10 \<notin> set f)
       [tid t, status t, priority t, or_empty (owner_model t), title t, or_empty (notes' t)])"

text \<open>A record reduced to what \<^verbatim>\<open>hashTasks\<close> reads of it.\<close>

definition hashed_fields :: "task \<Rightarrow> task" where
  "hashed_fields t =
    \<lparr>tid = tid t, project_id = [], title = title t, status = status t, priority = priority t,
     owner_model = or_null (owner_model t), notes' = or_null (notes' t), source_file = []\<rparr>"

subsection \<open>Concrete inputs\<close>

text \<open>
  Inputs on which the model is run: a platform, text files with the task \<^verbatim>\<open>proj-001\<close>
  under different headings, and the stores the runs leave.
\<close>

text \<open>
  A platform to run the model on concrete inputs: the digest is replaced by the identity (so
  a fingerprint is the first sixteen code units of the canonical text), and
  \<^verbatim>\<open>localeCompare\<close> by the order of the code units, with which it agrees on ids and
  priorities over \<^verbatim>\<open>[a-z0-9-]\<close> and \<^verbatim>\<open>P0\<close> to \<^verbatim>\<open>P9\<close>.
\<close>

definition test_platform :: platform where
  "test_platform =
    \<lparr>sha256_hex = (\<lambda>s. s),
     localeCompare = (\<lambda>a b. if a = b then 0 else if binary_less a b then - 1 else 1),
     error_message = (\<lambda>e. js ''constraint failed'')\<rparr>"

text \<open>The store after \<^verbatim>\<open>init-db.mjs\<close>: no rows but the singleton of \<^verbatim>\<open>sync_state\<close>.\<close>

definition empty_store :: db where
  "empty_store =
    \<lparr>projects = [], tasks_v2 = [], task_transitions_v2 = [], sync_state = Some empty_sync_row\<rparr>"

text \<open>
  Run A takes the lease on 2026-11-02 at 23:58:00 and run B takes it over on 2026-11-03 at
  00:00:30.
\<close>

definition store_A :: db where
  "store_A = snd (acquireLock (js ''files-to-db'') 1793663880000 empty_store)"

definition store_B :: db where
  "store_B = snd (acquireLock (js ''db-to-files'') 1793664030000 store_A)"

definition row_B :: sync_row where
  "row_B = \<lparr>files_hash = None, db_hash = None, last_sync_at = None,
     lock_owner = Some (js ''task-sync:db-to-files''),
     lock_until = Some (js ''2026-11-03T00:01:30.000Z''), last_result = None\<rparr>"

definition fs_blank_note :: tasks_dir where
  "fs_blank_note = [(js ''proj-tasks.md'',
     js ''## In Progress'' @ [10] @ js ''- [ ] (task:proj-001) [P2] Wire up retries.'' @ [10] @
     js ''  - note: '' @ [10])]"

definition task_line :: jsstring where
  "task_line = js ''- [ ] (task:proj-001) [P2] Wire up retries.''"

definition fs_backlog :: tasks_dir where
  "fs_backlog = [(js ''proj-tasks.md'', js ''## Backlog'' @ [10] @ task_line @ [10])]"

definition fs_in_progress :: tasks_dir where
  "fs_in_progress = [(js ''proj-tasks.md'', js ''## In Progress'' @ [10] @ task_line @ [10])]"

definition fs_done :: tasks_dir where
  "fs_done = [(js ''proj-tasks.md'',
     js ''## Done'' @ [10] @ js ''- [x] (task:proj-001) [P2] Wire up retries.'' @ [10])]"

definition fs_new_note :: tasks_dir where
  "fs_new_note = [(js ''proj-tasks.md'',
     js ''## In Progress'' @ [10] @ task_line @ [10] @ js ''  - note: new note'' @ [10])]"

definition fs_bad_priority :: tasks_dir where
  "fs_bad_priority = [(js ''proj-tasks.md'',
     js ''## Backlog'' @ [10] @ task_line @ [10] @
     js ''- [ ] (task:proj-002) [P5] Tune timeouts.'' @ [10])]"

definition task_a :: "jsstring \<Rightarrow> jsstring option \<Rightarrow> task" where
  "task_a st note = \<lparr>tid = js ''proj-001'', project_id = js ''proj'', title = js ''Wire up retries.'',
     status = st, priority = js ''P2'', owner_model = None, notes' = note,
     source_file = js ''tasks/proj-tasks.md''\<rparr>"

definition task_b :: task where
  "task_b = \<lparr>tid = js ''proj-002'', project_id = js ''proj'', title = js ''Tune timeouts.'',
     status = js ''backlog'', priority = js ''P5'', owner_model = None, notes' = None,
     source_file = js ''tasks/proj-tasks.md''\<rparr>"

definition row_a :: "jsstring \<Rightarrow> jsstring option \<Rightarrow> jsstring \<Rightarrow> jsstring \<Rightarrow> task_row" where
  "row_a st note c u =
    \<lparr>tid = js ''proj-001'', project_id = js ''proj'', title = js ''Wire up retries.'',
     status = st, priority = js ''P2'', owner_model = None, notes' = note,
     source_file = js ''tasks/proj-tasks.md'', legacy_key = None,
     created_at = c, updated_at = u\<rparr>"

definition proj_row :: "jsstring \<Rightarrow> project" where
  "proj_row u = \<lparr>p_id = js ''proj'', p_name = js ''Proj'', p_description = [],
     p_status = js ''active'', p_source_file = js ''tasks/proj-tasks.md'', p_updated_at = u\<rparr>"

definition released :: "jsstring \<Rightarrow> jsstring \<Rightarrow> jsstring \<Rightarrow> jsstring \<Rightarrow> sync_row" where
  "released fh dh t res = \<lparr>files_hash = Some fh, db_hash = Some dh, last_sync_at = Some t,
     lock_owner = None, lock_until = None, last_result = Some res\<rparr>"

definition sync_transition :: "jsstring option \<Rightarrow> jsstring \<Rightarrow> jsstring \<Rightarrow> jsstring \<Rightarrow> transition" where
  "sync_transition from to why t = \<lparr>task_id = js ''proj-001'', from_status = from, to_status = to,
     reason = Some why, actor = Some (js ''sync''), actor_model = None, at = t\<rparr>"

text \<open>
  The stores after \<^verbatim>\<open>proj-001\<close> is added at 10:00 on 2026-11-02, moved to In Progress at
  11:00 and to Done at 12:00.
\<close>

definition store_backlog :: db where
  "store_backlog =
    \<lparr>projects = [proj_row (js ''2026-11-02T10:00:00.000Z'')],
     tasks_v2 = [row_a (js ''backlog'') None (js ''2026-11-02T10:00:00.000Z'')
                  (js ''2026-11-02T10:00:00.000Z'')],
     task_transitions_v2 =
       [sync_transition None (js ''backlog'') (js ''added via file sync'')
          (js ''2026-11-02T10:00:00.000Z'')],
     sync_state = Some (released (js ''proj-001|backlog'') (js ''proj-001|backlog'')
        (js ''2026-11-02T10:00:00.000Z'') (js ''ok''))\<rparr>"

definition store_in_progress :: db where
  "store_in_progress =
    \<lparr>projects = [proj_row (js ''2026-11-02T10:00:00.000Z'')],
     tasks_v2 = [row_a (js ''in_progress'') None (js ''2026-11-02T10:00:00.000Z'')
                  (js ''2026-11-02T11:00:00.000Z'')],
     task_transitions_v2 =
       [sync_transition None (js ''backlog'') (js ''added via file sync'')
          (js ''2026-11-02T10:00:00.000Z''),
        sync_transition (Some (js ''backlog'')) (js ''in_progress'')
          (js ''file sync: status: backlog'' @ arrow @ js ''in_progress'')
          (js ''2026-11-02T11:00:00.000Z'')],
     sync_state = Some (released (js ''proj-001|in_prog'') (js ''proj-001|in_prog'')
        (js ''2026-11-02T11:00:00.000Z'') (js ''ok''))\<rparr>"

definition store_done :: db where
  "store_done =
    \<lparr>projects = [proj_row (js ''2026-11-02T10:00:00.000Z'')],
     tasks_v2 = [row_a (js ''done'') None (js ''2026-11-02T10:00:00.000Z'')
                  (js ''2026-11-02T12:00:00.000Z'')],
     task_transitions_v2 =
       [sync_transition None (js ''backlog'') (js ''added via file sync'')
          (js ''2026-11-02T10:00:00.000Z''),
        sync_transition (Some (js ''backlog'')) (js ''in_progress'')
          (js ''file sync: status: backlog'' @ arrow @ js ''in_progress'')
          (js ''2026-11-02T11:00:00.000Z''),
        sync_transition (Some (js ''in_progress'')) (js ''done'')
          (js ''file sync: status: in_progress'' @ arrow @ js ''done'')
          (js ''2026-11-02T12:00:00.000Z'')],
     sync_state = Some (released (js ''proj-001|done|P2'') (js ''proj-001|done|P2'')
        (js ''2026-11-02T12:00:00.000Z'') (js ''ok''))\<rparr>"

text \<open>A store whose task carries a note, and one left by a run that failed mid-batch.\<close>

definition store_noted :: db where
  "store_noted =
    \<lparr>projects = [proj_row (js ''2026-11-02T10:00:00.000Z'')],
     tasks_v2 = [row_a (js ''backlog'') (Some (js ''keep me'')) (js ''2026-11-02T10:00:00.000Z'')
                  (js ''2026-11-02T10:00:00.000Z'')],
     task_transitions_v2 = [],
     sync_state = Some empty_sync_row\<rparr>"

definition store_partial :: db where
  "store_partial =
    \<lparr>projects = [proj_row (js ''2026-11-02T10:00:00.000Z'')],
     tasks_v2 = [row_a (js ''backlog'') None (js ''2026-11-02T10:00:00.000Z'')
                  (js ''2026-11-02T10:00:00.000Z'')],
     task_transitions_v2 =
       [sync_transition None (js ''backlog'') (js ''added via file sync'')
          (js ''2026-11-02T10:00:00.000Z'')],
     sync_state = Some \<lparr>files_hash = None, db_hash = None,
        last_sync_at = Some (js ''2026-11-02T10:00:00.000Z''), lock_owner = None,
        lock_until = None, last_result = Some (js ''failed: constraint failed'')\<rparr>\<rparr>"

definition fs_no_tasks :: tasks_dir where
  "fs_no_tasks = [(js ''proj-tasks.md'', js ''## Backlog'' @ [10])]"

text \<open>Two records that differ in title and note and have the same canonical line.\<close>

definition pipe_in_title :: task where
  "pipe_in_title = \<lparr>tid = js ''proj-001'', project_id = js ''proj'', title = js ''retry|backoff'',
     status = js ''backlog'', priority = js ''P2'', owner_model = None, notes' = Some (js ''jitter''),
     source_file = js ''tasks/proj-tasks.md''\<rparr>"

definition pipe_in_note :: task where
  "pipe_in_note = \<lparr>tid = js ''proj-001'', project_id = js ''proj'', title = js ''retry'',
     status = js ''backlog'', priority = js ''P2'', owner_model = None,
     notes' = Some (js ''backoff|jitter''), source_file = js ''tasks/proj-tasks.md''\<rparr>"

section \<open>Properties\<close>

subsection \<open>Evaluation\<close>

lemmas time_defs = toISOString_def sql_datetime_def sql_strftime_iso_def date_part_def
  time_part_def civil_from_days_def day_of_era_def year_of_era_def day_of_year_def
  month_day_def pad2_def pad3_def pad4_def js_def

lemmas lock_defs = acquireLock_def releaseLock_def ensure_singleton_def lock_free_def
  empty_sync_row_def empty_store_def handleSignal_def

subsection \<open>The lease lock\<close>

lemma length_date_part: "length (date_part ms) = 10"
  by (simp add: date_part_def pad2_def pad4_def js_def split: prod.split)

lemma binary_less_append:
  "length a = length b \<Longrightarrow>
   binary_less (a @ x # r) (b @ y # s) =
     (binary_less a b \<or> (a = b \<and> (x < y \<or> (x = y \<and> binary_less r s))))"
proof (induction a b rule: binary_less.induct)
  case (4 u us v vs)
  then show ?case by auto
qed simp_all

text \<open>
  An expiry written by \<^verbatim>\<open>acquireLock\<close> has a \<^verbatim>\<open>T\<close> where \<^verbatim>\<open>datetime('now')\<close> has a
  space, so the comparison of the two texts is decided by their dates alone.
\<close>

lemma lease_expiry_by_date:
  "binary_less (toISOString u) (sql_datetime now) = binary_less (date_part u) (date_part now)"
  by (simp add: toISOString_def sql_datetime_def js_def binary_less_append length_date_part)

lemma acquireLock_succeeds_iff:
  "sync_state d = Some r \<Longrightarrow> fst (acquireLock mode now d) = None \<longleftrightarrow> lock_free now r"
  by (simp add: acquireLock_def ensure_singleton_def)

text \<open>
  C1 (lease acquisition succeeds if and only if no owner is recorded or the recorded expiry
  has passed; on success the caller is recorded with an expiry 60 s from now; on failure the
  current owner and expiry are reported). The code at a failing input: a run takes the lease
  on 2026-11-02 at 10:00:00 UTC, which records the expiry 10:01:00; a second run at 10:05:00
  the same day, four minutes after that expiry, is refused and reports the first run's owner
  and expiry.
\<close>

theorem acquireLock_refuses_expired_lease:
  "fst (acquireLock (js ''files-to-db'') 1793613600000 empty_store) = None \<and>
   lock_until (the (sync_state (snd (acquireLock (js ''files-to-db'') 1793613600000 empty_store))))
     = Some (toISOString (1793613600000 + 60000)) \<and>
   1793613600000 + 60000 < (1793613900000::nat) \<and>
   fst (acquireLock (js ''files-to-db'') 1793613900000
         (snd (acquireLock (js ''files-to-db'') 1793613600000 empty_store)))
     = Some (LockHeld (Some (js ''task-sync:files-to-db''))
              (Some (js ''2026-11-02T10:01:00.000Z'')))"
  by (simp add: lock_defs time_defs)

text \<open>
  C10 (lease release is unconditional): whatever owner and expiry the singleton holds,
  \<^verbatim>\<open>releaseLock\<close> sets both to null and records the outcome and the time; the next
  acquisition then succeeds; and the signal handler of a run that took the lease does
  exactly this release. So a release by a run whose lease has lapsed clears the lease of
  the run that took it over.
\<close>

theorem releaseLock_unconditional:
  assumes "sync_state d = Some r"
  shows "sync_state (releaseLock result now d) =
           Some (r\<lparr>lock_owner := None, lock_until := None,
                   last_sync_at := Some (toISOString now), last_result := Some result\<rparr>) \<and>
         fst (acquireLock mode now' (releaseLock result now d)) = None \<and>
         snd (handleSignal signal True now d) = releaseLock (js ''interrupted: '' @ signal) now d"
  using assms
  by (simp add: releaseLock_def acquireLock_def ensure_singleton_def lock_free_def
      handleSignal_def)

lemma store_B_row: "sync_state store_B = Some row_B"
  by (simp add: store_B_def store_A_def row_B_def lock_defs time_defs)

theorem releaseLock_unconditional_witness:
  "fst (acquireLock (js ''db-to-files'') 1793664030000 store_A) = None \<and>
   sync_state store_B = Some row_B \<and>
   sync_state (releaseLock (js ''failed: constraint failed'') 1793664040000 store_B) =
     Some (row_B\<lparr>lock_owner := None, lock_until := None,
             last_sync_at := Some (toISOString 1793664040000),
             last_result := Some (js ''failed: constraint failed'')\<rparr>) \<and>
   fst (acquireLock (js ''files-to-db'') 1793664041000
         (releaseLock (js ''failed: constraint failed'') 1793664040000 store_B)) = None"
  using releaseLock_unconditional [OF store_B_row, of "js ''failed: constraint failed''"
      1793664040000 "js ''files-to-db''" 1793664041000]
  by (simp add: store_B_row) (simp add: store_A_def lock_defs time_defs)

subsection \<open>Maps and sorting\<close>

lemma map_of_map_set: "map_of (map_set m k v) = (map_of m)(k \<mapsto> v)"
  by (induction m) (auto simp: fun_eq_iff)

lemma set_map_set: "set (map_set m k v) \<subseteq> insert (k, v) (set m)"
  by (induction m) (auto split: if_splits)

lemma map_fst_map_set:
  "map fst (map_set m k v) = (if k \<in> fst ` set m then map fst m else map fst m @ [k])"
  by (induction m) force+

lemma keys_map_set: "fst ` set (map_set m k v) = insert k (fst ` set m)"
proof -
  have "set (map fst (map_set m k v)) = insert k (set (map fst m))"
    unfolding map_fst_map_set by auto
  then show ?thesis by simp
qed

lemma distinct_map_set: "distinct (map fst m) \<Longrightarrow> distinct (map fst (map_set m k v))"
  unfolding map_fst_map_set by auto

lemma foldl_map_set_props:
  "distinct (map fst m) \<Longrightarrow>
   distinct (map fst (foldl (\<lambda>m (k, v). map_set m k v) m kvs)) \<and>
   set (foldl (\<lambda>m (k, v). map_set m k v) m kvs) \<subseteq> set m \<union> set kvs \<and>
   fst ` set (foldl (\<lambda>m (k, v). map_set m k v) m kvs) = fst ` set m \<union> fst ` set kvs \<and>
   map_of (foldl (\<lambda>m (k, v). map_set m k v) m kvs) = map_of m ++ map_of (rev kvs)"
proof (induction kvs arbitrary: m)
  case Nil
  then show ?case by simp
next
  case (Cons a kvs)
  obtain k v where a: "a = (k, v)" by (cases a)
  have d: "distinct (map fst (map_set m k v))" using Cons.prems by (rule distinct_map_set)
  from Cons.IH [OF d] show ?case
    using set_map_set [of m k v] keys_map_set [of m k v]
    by (auto simp: a map_of_map_set map_add_def fun_eq_iff split: option.splits)
qed

lemma distinct_new_Map: "distinct (map fst (new_Map kvs))"
  using foldl_map_set_props [of "[]" kvs] by (simp add: new_Map_def)

lemma set_new_Map: "set (new_Map kvs) \<subseteq> set kvs"
  using foldl_map_set_props [of "[]" kvs] by (simp add: new_Map_def)

lemma keys_new_Map: "fst ` set (new_Map kvs) = fst ` set kvs"
  using foldl_map_set_props [of "[]" kvs] by (simp add: new_Map_def)

lemma map_of_new_Map: "map_of (new_Map kvs) = map_of (rev kvs)"
  using foldl_map_set_props [of "[]" kvs] by (simp add: new_Map_def)

lemma task_map_entry: "(k, t) \<in> set (task_map ts) \<Longrightarrow> t \<in> set ts \<and> k = tid t"
  using set_new_Map [of "map (\<lambda>t. (tid t, t)) ts"] by (auto simp: task_map_def)

lemma task_map_keys: "fst ` set (task_map ts) = tid ` set ts"
  by (simp add: task_map_def keys_new_Map image_image)

lemma distinct_task_map: "distinct (map fst (task_map ts))"
  by (simp add: task_map_def distinct_new_Map)

lemma map_of_task_map_Some: "map_of (task_map ts) k = Some t \<Longrightarrow> t \<in> set ts \<and> tid t = k"
  using task_map_entry [of k t ts] by (auto dest: map_of_SomeD)

lemma map_of_task_map_None: "map_of (task_map ts) k = None \<longleftrightarrow> k \<notin> tid ` set ts"
  using task_map_keys [of ts] by (simp add: map_of_eq_None_iff)

lemma map_of_task_map_distinct:
  "distinct (map tid ts) \<Longrightarrow> t \<in> set ts \<Longrightarrow> map_of (task_map ts) (tid t) = Some t"
proof -
  assume d: "distinct (map tid ts)" and t: "t \<in> set ts"
  have "tid t \<in> tid ` set ts" using t by simp
  then obtain u where u: "map_of (task_map ts) (tid t) = Some u"
    using map_of_task_map_None [of ts "tid t"] by (cases "map_of (task_map ts) (tid t)") auto
  then have "u \<in> set ts" "tid u = tid t" using map_of_task_map_Some by blast+
  with d t have "u = t" by (meson distinct_map inj_onD)
  with u show ?thesis by simp
qed

lemma mset_insert_by: "mset (insert_by le x xs) = add_mset x (mset xs)"
  by (induction xs) auto

lemma mset_sort_by: "mset (sort_by le xs) = mset xs"
  by (induction xs) (auto simp: sort_by_def mset_insert_by)

lemma set_sort_by: "set (sort_by le xs) = set xs"
  using mset_sort_by [of le xs] by (metis set_mset_mset)

lemma distinct_map_sort_by: "distinct (map f (sort_by le xs)) = distinct (map f xs)"
proof -
  have "mset (map f (sort_by le xs)) = mset (map f xs)" by (simp add: mset_sort_by)
  then show ?thesis by (metis distinct_count_atmost_1 set_mset_mset)
qed

lemma has_task_rows: "has_task d i \<longleftrightarrow> rows d i \<noteq> []"
  by (auto simp: has_task_def rows_def list_ex_iff filter_empty_conv)

lemma tid_on_conflict [simp]: "tid (on_conflict now t r) = tid r"
  by (simp add: on_conflict_def)

lemma upsert_Inr:
  assumes "upsert now t d = Inr d'"
  shows "projects d' = projects d" "task_transitions_v2 d' = task_transitions_v2 d"
    "sync_state d' = sync_state d"
    "rows d' i = (if i = tid t then write_rows now t (rows d i) else rows d i)"
    "valid_status (status t)" "valid_priority (priority t)"
proof -
  show "projects d' = projects d" "task_transitions_v2 d' = task_transitions_v2 d"
    "sync_state d' = sync_state d" "valid_status (status t)" "valid_priority (priority t)"
    using assms by (auto simp: upsert_def split: if_splits)
  show "rows d' i = (if i = tid t then write_rows now t (rows d i) else rows d i)"
  proof (cases "has_task d (tid t)")
    case True
    then have d': "tasks_v2 d' = map (\<lambda>r. if tid r = tid t then on_conflict now t r else r) (tasks_v2 d)"
      using assms by (auto simp: upsert_def split: if_splits)
    have "filter (\<lambda>r. tid r = i) (map (\<lambda>r. if tid r = tid t then on_conflict now t r else r) rs)
          = (if i = tid t then map (on_conflict now t) (filter (\<lambda>r. tid r = i) rs)
             else filter (\<lambda>r. tid r = i) rs)" for rs
      by (induction rs) auto
    with True d' show ?thesis by (simp add: rows_def write_rows_def has_task_rows)
  next
    case False
    then have d': "tasks_v2 d' = tasks_v2 d @ [new_row now t]"
      using assms by (auto simp: upsert_def split: if_splits)
    with False show ?thesis
      by (auto simp: rows_def write_rows_def has_task_rows new_row_def)
  qed
qed

lemma upsert_has_task: "upsert now t d = Inr d' \<Longrightarrow> has_task d' (tid t)"
  using upsert_Inr(4) [of now t d d' "tid t"]
  by (auto simp: has_task_rows write_rows_def)

lemma insertTransition_Inr:
  assumes "insertTransition now i from to why d = Inr d'"
  shows "projects d' = projects d" "tasks_v2 d' = tasks_v2 d" "sync_state d' = sync_state d"
    "task_transitions_v2 d' = task_transitions_v2 d @ [transition_row now i from to why]"
  using assms by (auto simp: insertTransition_def transition_row_def split: if_splits)

lemma insertTransition_ok:
  "has_task d i \<Longrightarrow> \<exists>d'. insertTransition now i from to why d = Inr d'"
  by (simp add: insertTransition_def)

lemma rows_cong: "tasks_v2 d' = tasks_v2 d \<Longrightarrow> rows d' i = rows d i"
  by (simp add: rows_def)

lemma apply_diff_frame:
  assumes "apply_diff now x d = (e, d')"
  shows "projects d' = projects d" "sync_state d' = sync_state d"
    "i \<notin> set (diff_tids x) \<Longrightarrow> rows d' i = rows d i"
proof -
  have "projects d' = projects d \<and> sync_state d' = sync_state d \<and>
        (i \<notin> set (diff_tids x) \<longrightarrow> rows d' i = rows d i)"
  proof (cases x)
    case (FileOnly k t)
    show ?thesis
    proof (cases "upsert now t d")
      case (Inl err)
      with assms FileOnly show ?thesis by (simp add: apply_added_def)
    next
      case (Inr d1)
      note u = upsert_Inr [OF Inr]
      obtain d2 where d2: "insertTransition now (tid t) None (status t) (js ''added via file sync'') d1 = Inr d2"
        using insertTransition_ok [OF upsert_has_task [OF Inr]] by blast
      note it = insertTransition_Inr [OF d2]
      from assms FileOnly Inr d2 have "d' = d2" by (simp add: apply_added_def)
      with u it show ?thesis using FileOnly by (simp add: rows_cong [OF it(2)])
    qed
  next
    case (Changed k c t dt)
    show ?thesis
    proof (cases "upsert now t d")
      case (Inl err)
      with assms Changed show ?thesis by (simp add: apply_changed_def)
    next
      case (Inr d1)
      note u = upsert_Inr [OF Inr]
      obtain d2 where d2: "insertTransition now (tid t) (Some (status dt)) (status t)
            (js ''file sync: '' @ join (js '', '') c) d1 = Inr d2"
        using insertTransition_ok [OF upsert_has_task [OF Inr]] by blast
      note it = insertTransition_Inr [OF d2]
      from assms Changed Inr d2 have "d' = d2 \<or> d' = d1"
        by (auto simp: apply_changed_def split: if_splits)
      with u it show ?thesis using Changed by (auto simp: rows_cong [OF it(2)])
    qed
  next
    case (DbOnly k t)
    with assms show ?thesis by simp
  qed
  then show "projects d' = projects d" "sync_state d' = sync_state d"
    "i \<notin> set (diff_tids x) \<Longrightarrow> rows d' i = rows d i" by simp_all
qed

lemma apply_diff_ok:
  assumes "apply_diff now x d = (None, d')"
  shows "rows d' i = (if i \<in> set (diff_tids x) then diff_write now x (rows d i) else rows d i)"
    "task_transitions_v2 d' = task_transitions_v2 d @ diff_transitions now x"
proof -
  have "rows d' i = (if i \<in> set (diff_tids x) then diff_write now x (rows d i) else rows d i) \<and>
    task_transitions_v2 d' = task_transitions_v2 d @ diff_transitions now x"
  proof (cases x)
    case (FileOnly k t)
    from assms FileOnly obtain d1 where d1: "upsert now t d = Inr d1"
      by (cases "upsert now t d") (auto simp: apply_added_def)
    with assms FileOnly have d2: "insertTransition now (tid t) None (status t) (js ''added via file sync'') d1 = Inr d'"
      by (auto simp: apply_added_def split: sum.splits)
    show ?thesis
      using upsert_Inr [OF d1] insertTransition_Inr [OF d2] FileOnly
      by (simp add: rows_cong [OF insertTransition_Inr(2) [OF d2]])
  next
    case (Changed k c t dt)
    from assms Changed obtain d1 where d1: "upsert now t d = Inr d1"
      by (cases "upsert now t d") (auto simp: apply_changed_def)
    show ?thesis
    proof (cases "status dt \<noteq> status t")
      case True
      with assms Changed d1 have d2: "insertTransition now (tid t) (Some (status dt)) (status t)
            (js ''file sync: '' @ join (js '', '') c) d1 = Inr d'"
        by (auto simp: apply_changed_def split: sum.splits)
      show ?thesis
        using upsert_Inr [OF d1] insertTransition_Inr [OF d2] Changed True
        by (simp add: rows_cong [OF insertTransition_Inr(2) [OF d2]])
    next
      case False
      with assms Changed d1 have "d' = d1" by (auto simp: apply_changed_def)
      with upsert_Inr [OF d1] Changed False show ?thesis by simp
    qed
  next
    case (DbOnly k t)
    with assms show ?thesis by simp
  qed
  then show "rows d' i = (if i \<in> set (diff_tids x) then diff_write now x (rows d i) else rows d i)"
    "task_transitions_v2 d' = task_transitions_v2 d @ diff_transitions now x" by simp_all
qed

lemma apply_diffs_frame:
  "apply_diffs now xs d = (e, d') \<Longrightarrow>
   projects d' = projects d \<and> sync_state d' = sync_state d \<and>
   (i \<notin> set (concat (map diff_tids xs)) \<longrightarrow> rows d' i = rows d i)"
proof (induction xs arbitrary: d)
  case Nil
  then show ?case by simp
next
  case (Cons x xs)
  obtain e1 d1 where s: "apply_diff now x d = (e1, d1)" by (cases "apply_diff now x d")
  note f = apply_diff_frame(1,2) [OF s] apply_diff_frame(3) [OF s, of i]
  show ?case
  proof (cases e1)
    case None
    with Cons.prems s have "apply_diffs now xs d1 = (e, d')" by simp
    from Cons.IH [OF this] f show ?thesis by auto
  next
    case (Some err)
    with Cons.prems s have "d' = d1" by simp
    with f show ?thesis by auto
  qed
qed

lemma apply_diffs_ok:
  "apply_diffs now xs d = (None, d') \<Longrightarrow> distinct (concat (map diff_tids xs)) \<Longrightarrow>
   rows d' i = (case find (\<lambda>x. i \<in> set (diff_tids x)) xs of
                  None \<Rightarrow> rows d i | Some x \<Rightarrow> diff_write now x (rows d i)) \<and>
   task_transitions_v2 d' = task_transitions_v2 d @ concat (map (diff_transitions now) xs)"
proof (induction xs arbitrary: d)
  case Nil
  then show ?case by simp
next
  case (Cons x xs)
  obtain e1 d1 where s: "apply_diff now x d = (e1, d1)" by (cases "apply_diff now x d")
  with Cons.prems have e1: "e1 = None" by (cases e1) auto
  with Cons.prems s have r: "apply_diffs now xs d1 = (None, d')" by simp
  from Cons.prems have dist: "distinct (concat (map diff_tids xs))" by simp
  note ih = Cons.IH [OF r dist]
  note ok = apply_diff_ok(1) [OF s [unfolded e1], of i] apply_diff_ok(2) [OF s [unfolded e1]]
  show ?case
  proof (cases "i \<in> set (diff_tids x)")
    case True
    with Cons.prems(2) have "i \<notin> set (concat (map diff_tids xs))" by auto
    then have "find (\<lambda>x. i \<in> set (diff_tids x)) xs = None"
      by (auto simp: find_None_iff)
    with ih ok True show ?thesis by simp
  next
    case False
    with ih ok show ?thesis by (simp split: option.splits)
  qed
qed

lemma filter_concat_assoc:
  "distinct (map fst F) \<Longrightarrow> (\<forall>e\<in>set F. \<forall>y\<in>set (h e). Q y \<longleftrightarrow> fst e = i) \<Longrightarrow>
   filter Q (concat (map h F)) = (case map_of F i of None \<Rightarrow> [] | Some v \<Rightarrow> h (i, v))"
proof (induction F)
  case Nil
  then show ?case by simp
next
  case (Cons e F)
  obtain k v where e: "e = (k, v)" by (cases e)
  from Cons.prems have ih: "filter Q (concat (map h F)) = (case map_of F i of None \<Rightarrow> [] | Some v \<Rightarrow> h (i, v))"
    by (intro Cons.IH) auto
  show ?case
  proof (cases "k = i")
    case True
    with Cons.prems e have "map_of F i = None" by (auto simp: map_of_eq_None_iff)
    moreover from Cons.prems e True have "filter Q (h e) = h e" by (auto simp: filter_id_conv)
    ultimately show ?thesis using ih e True by simp
  next
    case False
    with Cons.prems e have "filter Q (h e) = []" by (auto simp: filter_empty_conv)
    with ih e False show ?thesis by simp
  qed
qed

lemma find_filter_hd: "find P xs = (case filter P xs of [] \<Rightarrow> None | x # ys \<Rightarrow> Some x)"
  by (induction xs) auto

lemma diff_file_entry_cases:
  "diff_file_entry M e = [] \<or> (\<exists>x. diff_file_entry M e = [x] \<and> diff_tids x = [tid (snd e)])"
  by (auto simp: diff_file_entry_def split: option.splits)

lemma diff_db_entry_tids: "x \<in> set (diff_db_entry M e) \<Longrightarrow> diff_tids x = []"
  by (auto simp: diff_db_entry_def split: option.splits)

lemma diff_file_part_tids:
  "concat (map diff_tids (concat (map (diff_file_entry M) (task_map f)))) =
   map fst (filter (\<lambda>e. diff_file_entry M e \<noteq> []) (task_map f))"
proof -
  have "\<forall>e\<in>set F. tid (snd e) = fst e \<Longrightarrow>
    concat (map diff_tids (concat (map (diff_file_entry M) F))) =
    map fst (filter (\<lambda>e. diff_file_entry M e \<noteq> []) F)" for F
  proof (induction F)
    case Nil
    then show ?case by simp
  next
    case (Cons e F)
    then show ?case using diff_file_entry_cases [of M e] by auto
  qed
  moreover have "\<forall>e\<in>set (task_map f). tid (snd e) = fst e"
    using task_map_entry by fastforce
  ultimately show ?thesis by blast
qed

lemma diff_db_part_tids: "concat (map diff_tids (concat (map (diff_db_entry M) D))) = []"
  by (induction D) (auto dest: diff_db_entry_tids)

lemma diffTasks_tids:
  "concat (map diff_tids (diffTasks f dbt)) =
   map fst (filter (\<lambda>e. diff_file_entry (task_map dbt) e \<noteq> []) (task_map f))"
  by (simp add: diffTasks_def diff_file_part_tids diff_db_part_tids)

lemma diffTasks_tids_distinct: "distinct (concat (map diff_tids (diffTasks f dbt)))"
  unfolding diffTasks_tids using distinct_task_map [of f] by (rule distinct_map_filter)

lemma diffTasks_tids_subset: "set (concat (map diff_tids (diffTasks f dbt))) \<subseteq> tid ` set f"
  unfolding diffTasks_tids using task_map_keys [of f] by auto

lemma diff_file_entry_at:
  "diff_file_entry (task_map dbt) (i, ft) =
    (case (case map_of (task_map dbt) i of
             None \<Rightarrow> Some (FileOnly i ft)
           | Some dt \<Rightarrow>
              if field_changes ft dt \<noteq> [] then Some (Changed i (field_changes ft dt) ft dt)
              else None) of None \<Rightarrow> [] | Some x \<Rightarrow> [x])"
  by (simp add: diff_file_entry_def split: option.splits)

lemma filter_diffTasks:
  assumes Q: "\<And>x k. x \<in> set (diffTasks f dbt) \<Longrightarrow> Q x \<longleftrightarrow> i \<in> set (diff_tids x)"
  shows "filter Q (diffTasks f dbt) = (case diff_for f dbt i of None \<Rightarrow> [] | Some x \<Rightarrow> [x])"
proof -
  let ?F = "task_map f" and ?M = "task_map dbt"
  have key: "\<forall>e\<in>set ?F. tid (snd e) = fst e" using task_map_entry by fastforce
  have 1: "filter Q (concat (map (diff_file_entry ?M) ?F)) =
        (case map_of ?F i of None \<Rightarrow> [] | Some v \<Rightarrow> diff_file_entry ?M (i, v))"
  proof (rule filter_concat_assoc [OF distinct_task_map])
    show "\<forall>e\<in>set ?F. \<forall>y\<in>set (diff_file_entry ?M e). Q y = (fst e = i)"
    proof (intro ballI)
      fix e y assume e: "e \<in> set ?F" and y: "y \<in> set (diff_file_entry ?M e)"
      then have "y \<in> set (diffTasks f dbt)" by (auto simp: diffTasks_def)
      then have "Q y \<longleftrightarrow> i \<in> set (diff_tids y)" by (rule Q)
      moreover from y diff_file_entry_cases [of ?M e] have "diff_tids y = [tid (snd e)]" by auto
      ultimately show "Q y = (fst e = i)" using key e by auto
    qed
  qed
  have 2: "filter Q (concat (map (diff_db_entry ?F) ?M)) = []"
  proof -
    have "\<not> Q y" if "y \<in> set (concat (map (diff_db_entry ?F) ?M))" for y
    proof -
      from that have "y \<in> set (diffTasks f dbt)" by (auto simp: diffTasks_def)
      then have "Q y \<longleftrightarrow> i \<in> set (diff_tids y)" by (rule Q)
      moreover from that have "diff_tids y = []" by (auto dest: diff_db_entry_tids)
      ultimately show ?thesis by simp
    qed
    then show ?thesis by (simp add: filter_empty_conv del: set_concat)
  qed
  show ?thesis
    unfolding diffTasks_def filter_append 1 2
    by (simp add: diff_for_def diff_file_entry_at split: option.splits)
qed

lemma find_diffTasks:
  "find (\<lambda>x. i \<in> set (diff_tids x)) (diffTasks f dbt) = diff_for f dbt i"
  unfolding find_filter_hd
  by (subst filter_diffTasks [where i = i]) (auto split: option.splits)

lemma tid_diff_transitions: "y \<in> set (diff_transitions now x) \<Longrightarrow> diff_tids x = [task_id y]"
  by (cases x) (auto simp: transition_row_def split: if_splits)

lemma filter_transitions_diffTasks:
  "filter (\<lambda>y. task_id y = i) (concat (map (diff_transitions now) (diffTasks f dbt))) =
   (case diff_for f dbt i of None \<Rightarrow> [] | Some x \<Rightarrow> diff_transitions now x)"
proof -
  have "filter (\<lambda>y. task_id y = i) (concat (map (diff_transitions now) xs)) =
        concat (map (diff_transitions now) (filter (\<lambda>x. i \<in> set (diff_tids x)) xs))" for xs
  proof (induction xs)
    case Nil
    then show ?case by simp
  next
    case (Cons x xs)
    have "filter (\<lambda>y. task_id y = i) (diff_transitions now x) =
          (if i \<in> set (diff_tids x) then diff_transitions now x else [])"
      using tid_diff_transitions [of _ now x]
      by (auto simp: filter_empty_conv filter_id_conv)
    with Cons show ?case by simp
  qed
  then show ?thesis
    by (simp add: filter_diffTasks [where i = i] split: option.splits)
qed

subsection \<open>The store under a whole run\<close>

lemma create_missing_projects_frame:
  "tasks_v2 (create_missing_projects now known missing ts d) = tasks_v2 d \<and>
   task_transitions_v2 (create_missing_projects now known missing ts d) = task_transitions_v2 d \<and>
   sync_state (create_missing_projects now known missing ts d) = sync_state d"
  by (induction now known missing ts d rule: create_missing_projects.induct)
     (auto simp: upsertProject_def)

lemma acquireLock_frame:
  "tasks_v2 (snd (acquireLock mode now d)) = tasks_v2 d \<and>
   task_transitions_v2 (snd (acquireLock mode now d)) = task_transitions_v2 d \<and>
   projects (snd (acquireLock mode now d)) = projects d"
  by (auto simp: acquireLock_def ensure_singleton_def Let_def split: option.splits)

lemma releaseLock_frame:
  "tasks_v2 (releaseLock res now d) = tasks_v2 d \<and>
   task_transitions_v2 (releaseLock res now d) = task_transitions_v2 d \<and>
   projects (releaseLock res now d) = projects d"
  by (auto simp: releaseLock_def split: option.splits)

lemma update_hashes_frame:
  "tasks_v2 (update_hashes a b d) = tasks_v2 d \<and>
   task_transitions_v2 (update_hashes a b d) = task_transitions_v2 d \<and>
   projects (update_hashes a b d) = projects d"
  by (auto simp: update_hashes_def split: option.splits)

lemma syncFilesToDb_rows_absent:
  assumes "i \<notin> tid ` set f"
  shows "rows (snd (syncFilesToDb p now fs f dbt (diffTasks f dbt) d)) i = rows d i"
proof -
  let ?d0 = "create_missing_projects now (map p_id (projects d)) [] f d"
  obtain e d1 where a: "apply_diffs now (diffTasks f dbt) ?d0 = (e, d1)"
    by (cases "apply_diffs now (diffTasks f dbt) ?d0")
  from assms diffTasks_tids_subset [of f dbt]
  have "i \<notin> set (concat (map diff_tids (diffTasks f dbt)))" by blast
  with apply_diffs_frame [OF a, of i] have "rows d1 i = rows ?d0 i" by simp
  also have "\<dots> = rows d i" by (simp add: rows_def create_missing_projects_frame)
  finally have r: "rows d1 i = rows d i" .
  show ?thesis
    using a r
    by (cases e) (auto simp: syncFilesToDb_def finish_sync_def rows_def update_hashes_frame)
qed

text \<open>
  C7 (non-deletion): a record whose id no text file declares is left untouched by a
  text-to-store run, whether the run succeeds, finds the lease taken or fails mid-batch:
  the rows of \<^verbatim>\<open>tasks_v2\<close> with that id are the same before and after, field for field.
\<close>

theorem absent_record_untouched:
  assumes "i \<notin> tid ` set (parseAllFiles fs)"
  shows "filter (\<lambda>r. tid r = i) (tasks_v2 (snd (run_files_to_db p now fs d))) =
         filter (\<lambda>r. tid r = i) (tasks_v2 d)"
proof (cases "fst (acquireLock (js ''files-to-db'') now d)")
  case (Some e)
  then show ?thesis
    by (cases "acquireLock (js ''files-to-db'') now d")
       (use acquireLock_frame [of "js ''files-to-db''" now d] in \<open>auto simp: run_files_to_db_def\<close>)
next
  case None
  let ?d1 = "snd (acquireLock (js ''files-to-db'') now d)"
  have run: "run_files_to_db p now fs d = sync_locked p now fs ?d1"
    using None by (cases "acquireLock (js ''files-to-db'') now d") (auto simp: run_files_to_db_def)
  have "rows (snd (sync_locked p now fs ?d1)) i = rows ?d1 i"
    using syncFilesToDb_rows_absent [OF assms, of p now fs "getDbTasks ?d1" ?d1]
    by (auto simp: sync_locked_def rows_def releaseLock_frame split: prod.splits sum.splits)
  then show ?thesis
    unfolding run by (simp add: rows_def acquireLock_frame)
qed

lemmas parse_defs = parseAllFiles_def task_files_def parseTaskFile_def slug_of_def ends_with_def
  header_match_def status_of_heading_def inherited_property_def STATUS_MAP_def match_task_def match_id_def match_tail_def
  match_tag2_def match_title_def
  ws_splits_def opt_tag_def dot_plus_end_def make_task_def classify_tag_def is_priority_tag_def
  next_note_def note_match_def trim_def trimEnd_def is_space_def is_line_terminator_def
  is_id_char_def is_digit_def to_lower_def js_def upt_rec

lemmas sync_defs = run_files_to_db_def sync_locked_def syncFilesToDb_def finish_sync_def
  update_hashes_def apply_added_def apply_changed_def upsert_def bindable_def insertTransition_def
  on_conflict_def new_row_def comparison_changed_def coalesce_def valid_status_def
  valid_priority_def has_task_def has_project_def upsertProject_def project_name_def
  is_word_def to_upper_word_def
  diffTasks_def diff_file_entry_def diff_db_entry_def field_changes_def task_map_def new_Map_def
  getDbTasks_def sort_by_def binary_le_def hashTasks_def hash_data_def hash_line_def
  or_null_def or_empty_def show_nullable_def arrow_def task.truncate_def test_platform_def

lemma tid_truncate [simp]: "tid (task.truncate r) = tid r"
  by (simp add: task.truncate_def)

lemma filter_distinct_key:
  "distinct (map f xs) \<Longrightarrow> length (filter (\<lambda>x. f x = i) xs) \<le> 1"
proof (induction xs)
  case Nil
  then show ?case by simp
next
  case (Cons x xs)
  then have "f x \<notin> f ` set xs" by simp
  then have "f x = i \<Longrightarrow> filter (\<lambda>x. f x = i) xs = []"
    unfolding filter_empty_conv by blast
  with Cons show ?case by auto
qed

lemma distinct_key_filter:
  "(\<And>i. length (filter (\<lambda>x. f x = i) xs) \<le> 1) \<Longrightarrow> distinct (map f xs)"
proof (induction xs)
  case Nil
  then show ?case by simp
next
  case (Cons x xs)
  have "length (filter (\<lambda>y. f y = i) xs) \<le> 1" for i
    using Cons.prems [of i] by (auto split: if_splits)
  then have d: "distinct (map f xs)" by (rule Cons.IH)
  have "f x \<notin> f ` set xs"
  proof
    assume "f x \<in> f ` set xs"
    then have "filter (\<lambda>y. f y = f x) xs \<noteq> []" by (auto simp: filter_empty_conv)
    then have "length (filter (\<lambda>y. f y = f x) xs) \<ge> 1" by (cases "filter (\<lambda>y. f y = f x) xs") auto
    with Cons.prems [of "f x"] show False by simp
  qed
  with d show ?case by simp
qed

lemma rows_length: "distinct (map tid (tasks_v2 d)) \<Longrightarrow> length (rows d i) \<le> 1"
  unfolding rows_def by (rule filter_distinct_key)

lemma set_getDbTasks: "set (getDbTasks d) = task.truncate ` set (tasks_v2 d)"
  by (simp add: getDbTasks_def set_sort_by)

lemma distinct_getDbTasks:
  "distinct (map tid (getDbTasks d)) = distinct (map tid (tasks_v2 d))"
  by (simp add: getDbTasks_def distinct_map_sort_by comp_def)

lemma getDbTasks_cong: "tasks_v2 d' = tasks_v2 d \<Longrightarrow> getDbTasks d' = getDbTasks d"
  by (simp add: getDbTasks_def)

lemma map_of_getDbTasks:
  assumes "distinct (map tid (tasks_v2 d))"
  shows "map_of (task_map (getDbTasks d)) i =
         (case rows d i of [] \<Rightarrow> None | r # rs \<Rightarrow> Some (task.truncate r))"
proof (cases "rows d i")
  case Nil
  then have "i \<notin> tid ` set (getDbTasks d)"
    by (auto simp: set_getDbTasks rows_def filter_empty_conv)
  with Nil show ?thesis by (simp add: map_of_task_map_None)
next
  case (Cons r rs)
  then have "r \<in> set (rows d i)" by simp
  then have r: "r \<in> set (tasks_v2 d)" "tid r = i" by (auto simp: rows_def)
  then have "task.truncate r \<in> set (getDbTasks d)" by (simp add: set_getDbTasks)
  from map_of_task_map_distinct [OF _ this] assms r(2) Cons show ?thesis
    by (simp add: distinct_getDbTasks)
qed

subsection \<open>A run that succeeds\<close>

lemma acquireLock_None:
  assumes "acquireLock mode now d = (None, d1)"
  shows "tasks_v2 d1 = tasks_v2 d" "task_transitions_v2 d1 = task_transitions_v2 d"
    "projects d1 = projects d"
    "\<exists>r. sync_state d1 = Some r"
  using assms
  by (auto simp: acquireLock_def ensure_singleton_def Let_def split: option.splits if_splits)

lemma run_files_to_db_exit:
  "fst (run_files_to_db p now fs d) = 0 \<or> fst (run_files_to_db p now fs d) = 1"
  by (auto simp: run_files_to_db_def sync_locked_def split: prod.splits option.splits sum.splits)

lemma run_files_to_db_ok:
  assumes "run_files_to_db p now fs d = (0, d')"
  obtains d1 d2 where
    "acquireLock (js ''files-to-db'') now d = (None, d1)"
    "apply_diffs now (diffTasks (parseAllFiles fs) (getDbTasks d))
       (create_missing_projects now (map p_id (projects d)) [] (parseAllFiles fs) d1) = (None, d2)"
    "d' = releaseLock (js ''ok'') now
            (update_hashes (hashTasks p (parseAllFiles fs)) (hashTasks p (getDbTasks d2)) d2)"
proof -
  obtain e d1 where a: "acquireLock (js ''files-to-db'') now d = (e, d1)"
    by (cases "acquireLock (js ''files-to-db'') now d")
  with assms have e: "e = None" by (cases e) (auto simp: run_files_to_db_def)
  note fr = acquireLock_None [OF a [unfolded e]]
  have g: "getDbTasks d1 = getDbTasks d" using fr(1) by (rule getDbTasks_cong)
  from assms a e have s: "sync_locked p now fs d1 = (0, d')" by (simp add: run_files_to_db_def)
  obtain e2 d2 where b: "apply_diffs now (diffTasks (parseAllFiles fs) (getDbTasks d))
       (create_missing_projects now (map p_id (projects d)) [] (parseAllFiles fs) d1) = (e2, d2)"
    by (cases "apply_diffs now (diffTasks (parseAllFiles fs) (getDbTasks d))
       (create_missing_projects now (map p_id (projects d)) [] (parseAllFiles fs) d1)")
  from s b have e2: "e2 = None"
    by (cases e2) (auto simp: sync_locked_def syncFilesToDb_def g fr(3))
  from s b e2 have "d' = releaseLock (js ''ok'') now
            (update_hashes (hashTasks p (parseAllFiles fs)) (hashTasks p (getDbTasks d2)) d2)"
    by (auto simp: sync_locked_def syncFilesToDb_def finish_sync_def g fr(3))
  with a e b e2 that show thesis by blast
qed

lemma run_files_to_db_ok_rows:
  assumes "run_files_to_db p now fs d = (0, d')"
  shows "rows d' i = (case diff_for (parseAllFiles fs) (getDbTasks d) i of
                        None \<Rightarrow> rows d i | Some x \<Rightarrow> diff_write now x (rows d i))"
    and "task_transitions_v2 d' = task_transitions_v2 d @
           concat (map (diff_transitions now) (diffTasks (parseAllFiles fs) (getDbTasks d)))"
proof -
  from assms obtain d1 d2 where
    a: "acquireLock (js ''files-to-db'') now d = (None, d1)" and
    b: "apply_diffs now (diffTasks (parseAllFiles fs) (getDbTasks d))
       (create_missing_projects now (map p_id (projects d)) [] (parseAllFiles fs) d1) = (None, d2)" and
    c: "d' = releaseLock (js ''ok'') now
            (update_hashes (hashTasks p (parseAllFiles fs)) (hashTasks p (getDbTasks d2)) d2)"
    by (rule run_files_to_db_ok)
  note fr = acquireLock_None [OF a]
  let ?d0 = "create_missing_projects now (map p_id (projects d)) [] (parseAllFiles fs) d1"
  have d0: "rows ?d0 i = rows d i" "task_transitions_v2 ?d0 = task_transitions_v2 d"
    by (simp_all add: rows_def create_missing_projects_frame fr)
  have d': "rows d' i = rows d2 i" "task_transitions_v2 d' = task_transitions_v2 d2"
    by (simp_all add: c rows_def releaseLock_frame update_hashes_frame)
  from apply_diffs_ok [OF b diffTasks_tids_distinct, of i]
  show "rows d' i = (case diff_for (parseAllFiles fs) (getDbTasks d) i of
                        None \<Rightarrow> rows d i | Some x \<Rightarrow> diff_write now x (rows d i))"
    and "task_transitions_v2 d' = task_transitions_v2 d @
           concat (map (diff_transitions now) (diffTasks (parseAllFiles fs) (getDbTasks d)))"
    by (simp_all add: d0 d' find_diffTasks split: option.splits)
qed

text \<open>
  What \<^verbatim>\<open>COALESCE(excluded.notes, tasks_v2.notes)\<close> does to the note of a changed record:
  when a run succeeds and the record with id \<open>i\<close> is in the text and in the store with a
  compared field differing, the store afterwards holds one row for \<open>i\<close>; its note is the
  stored note if the incoming note is null, and the incoming note otherwise, the empty
  string included.
\<close>

lemma changed_record_note:
  assumes run: "run_files_to_db p now fs d = (0, d')"
    and key: "distinct (map tid (tasks_v2 d))"
    and infile: "map_of (task_map (parseAllFiles fs)) i = Some ft"
    and row: "r \<in> set (tasks_v2 d)" "tid r = i"
    and changed: "field_changes ft (task.truncate r) \<noteq> []"
  shows "\<exists>r'. filter (\<lambda>x. tid x = i) (tasks_v2 d') = [r'] \<and>
           notes' r' = (case notes' ft of None \<Rightarrow> notes' r | Some n \<Rightarrow> Some n)"
proof -
  from row have "r \<in> set (rows d i)" by (simp add: rows_def)
  with rows_length [OF key, of i] have rows: "rows d i = [r]"
    by (cases "rows d i") auto
  with map_of_getDbTasks [OF key, of i]
  have "map_of (task_map (getDbTasks d)) i = Some (task.truncate r)" by simp
  with infile changed have "diff_for (parseAllFiles fs) (getDbTasks d) i =
      Some (Changed i (field_changes ft (task.truncate r)) ft (task.truncate r))"
    by (simp add: diff_for_def)
  with run_files_to_db_ok_rows(1) [OF run, of i] rows
  have "rows d' i = [on_conflict now ft r]" by (simp add: write_rows_def)
  then show ?thesis
    by (simp add: rows_def on_conflict_def coalesce_def)
qed

lemma apply_diff_error: "apply_diff now x d = (Some e, d') \<Longrightarrow> d' = d"
proof (cases x)
  case (FileOnly k t)
  assume a: "apply_diff now x d = (Some e, d')"
  show ?thesis
  proof (cases "upsert now t d")
    case (Inl err)
    with a FileOnly show ?thesis by (simp add: apply_added_def)
  next
    case (Inr d1)
    obtain d2 where "insertTransition now (tid t) None (status t) (js ''added via file sync'') d1 = Inr d2"
      using insertTransition_ok [OF upsert_has_task [OF Inr]] by blast
    with a FileOnly Inr show ?thesis by (simp add: apply_added_def)
  qed
next
  case (Changed k c t dt)
  assume a: "apply_diff now x d = (Some e, d')"
  show ?thesis
  proof (cases "upsert now t d")
    case (Inl err)
    with a Changed show ?thesis by (simp add: apply_changed_def)
  next
    case (Inr d1)
    obtain d2 where "insertTransition now (tid t) (Some (status dt)) (status t)
        (js ''file sync: '' @ join (js '', '') c) d1 = Inr d2"
      using insertTransition_ok [OF upsert_has_task [OF Inr]] by blast
    with a Changed Inr show ?thesis by (simp add: apply_changed_def split: if_splits)
  qed
next
  case (DbOnly k t)
  assume "apply_diff now x d = (Some e, d')"
  with DbOnly show ?thesis by simp
qed

lemma apply_diffs_append:
  "apply_diffs now ys d = (None, d1) \<Longrightarrow> apply_diffs now (ys @ zs) d = apply_diffs now zs d1"
proof (induction ys arbitrary: d)
  case Nil
  then show ?case by simp
next
  case (Cons y ys)
  obtain e2 d2 where s: "apply_diff now y d = (e2, d2)" by (cases "apply_diff now y d")
  with Cons.prems have "e2 = None" by (cases e2) auto
  with Cons s show ?case by simp
qed

lemma apply_diffs_error:
  "apply_diffs now xs d = (Some e, d') \<Longrightarrow>
   \<exists>ys x zs. xs = ys @ x # zs \<and> apply_diffs now ys d = (None, d') \<and>
     apply_diff now x d' = (Some e, d')"
proof (induction xs arbitrary: d)
  case Nil
  then show ?case by simp
next
  case (Cons x xs)
  obtain e1 d1 where s: "apply_diff now x d = (e1, d1)" by (cases "apply_diff now x d")
  show ?case
  proof (cases e1)
    case None
    with Cons.prems s have "apply_diffs now xs d1 = (Some e, d')" by simp
    from Cons.IH [OF this] obtain ys y zs where
      "xs = ys @ y # zs" "apply_diffs now ys d1 = (None, d')" "apply_diff now y d' = (Some e, d')"
      by blast
    with s None have "x # xs = (x # ys) @ y # zs \<and> apply_diffs now (x # ys) d = (None, d') \<and>
        apply_diff now y d' = (Some e, d')" by simp
    then show ?thesis by blast
  next
    case (Some err)
    with Cons.prems s have "err = e" "d' = d1" by auto
    moreover from s Some have "d1 = d" using apply_diff_error by blast
    ultimately have "x # xs = [] @ x # xs \<and> apply_diffs now [] d = (None, d') \<and>
        apply_diff now x d' = (Some e, d')" using s Some by simp
    then show ?thesis by blast
  qed
qed

text \<open>
  C2, as amended (no all-or-nothing unit): a run that has taken the lease and exits with 1
  has applied a prefix of the diff in full; the next entry threw and wrote nothing, the
  entries after it were not tried, the fingerprints were not updated, and the lease was
  released with the failure recorded. The store is that prefix's result, not the store
  before the apply.
\<close>

theorem apply_stops_at_failing_statement:
  assumes lease: "acquireLock (js ''files-to-db'') now d = (None, d1)"
    and failed: "run_files_to_db p now fs d = (1, d')"
  shows "\<exists>ys x zs e d2.
    diffTasks (parseAllFiles fs) (getDbTasks d) = ys @ x # zs \<and>
    apply_diffs now ys
      (create_missing_projects now (map p_id (projects d)) [] (parseAllFiles fs) d1) = (None, d2) \<and>
    apply_diff now x d2 = (Some e, d2) \<and>
    d' = releaseLock (js ''failed: '' @ error_message p e) now d2"
proof -
  note fr = acquireLock_None [OF lease]
  have g: "getDbTasks d1 = getDbTasks d" using fr(1) by (rule getDbTasks_cong)
  let ?d0 = "create_missing_projects now (map p_id (projects d)) [] (parseAllFiles fs) d1"
  let ?xs = "diffTasks (parseAllFiles fs) (getDbTasks d)"
  from failed lease have s: "sync_locked p now fs d1 = (1, d')" by (simp add: run_files_to_db_def)
  obtain e2 d2 where b: "apply_diffs now ?xs ?d0 = (e2, d2)" by (cases "apply_diffs now ?xs ?d0")
  from s b obtain e where e: "e2 = Some e"
    by (cases e2) (auto simp: sync_locked_def syncFilesToDb_def finish_sync_def g fr(3))
  from s b e have d': "d' = releaseLock (js ''failed: '' @ error_message p e) now d2"
    by (auto simp: sync_locked_def syncFilesToDb_def g fr(3))
  from apply_diffs_error [OF b [unfolded e]] d' show ?thesis by blast
qed

subsection \<open>A second run\<close>

lemma truncate_new_row: "task.truncate (new_row now t) = t"
  by (simp add: task.truncate_def new_row_def)

lemma field_changes_refl: "field_changes t t = []"
  by (simp add: field_changes_def)

lemma field_changes_on_conflict: "field_changes t (task.truncate (on_conflict now t r)) = []"
  by (simp add: field_changes_def task.truncate_def on_conflict_def)

lemma length_diff_write: "length rs \<le> 1 \<Longrightarrow> length (diff_write now x rs) \<le> 1"
  by (cases x) (auto simp: write_rows_def)

lemma run_keeps_key:
  assumes run: "run_files_to_db p now fs d = (0, d')"
    and key: "distinct (map tid (tasks_v2 d))"
  shows "distinct (map tid (tasks_v2 d'))"
proof (rule distinct_key_filter)
  fix i
  have "length (rows d' i) \<le> 1"
  proof (cases "diff_for (parseAllFiles fs) (getDbTasks d) i")
    case None
    with run_files_to_db_ok_rows(1) [OF run, of i] rows_length [OF key, of i]
    show ?thesis by simp
  next
    case (Some x)
    with run_files_to_db_ok_rows(1) [OF run, of i]
      length_diff_write [OF rows_length [OF key, of i], of now x]
    show ?thesis by simp
  qed
  then show "length (filter (\<lambda>x. tid x = i) (tasks_v2 d')) \<le> 1" by (simp add: rows_def)
qed

lemma run_leaves_no_diff:
  assumes run: "run_files_to_db p now fs d = (0, d')"
    and key: "distinct (map tid (tasks_v2 d))"
  shows "diff_for (parseAllFiles fs) (getDbTasks d') i = None"
proof (cases "map_of (task_map (parseAllFiles fs)) i")
  case None
  then show ?thesis by (simp add: diff_for_def)
next
  case (Some ft)
  note key' = run_keeps_key [OF run key]
  note r' = run_files_to_db_ok_rows(1) [OF run, of i]
  show ?thesis
  proof (cases "rows d i")
    case Nil
    with Some have "diff_for (parseAllFiles fs) (getDbTasks d) i = Some (FileOnly i ft)"
      by (simp add: diff_for_def map_of_getDbTasks [OF key])
    with r' Nil have "rows d' i = [new_row now ft]" by (simp add: write_rows_def)
    with Some show ?thesis
      by (simp add: diff_for_def map_of_getDbTasks [OF key'] truncate_new_row field_changes_refl)
  next
    case (Cons r rs)
    with rows_length [OF key, of i] have rows: "rows d i = [r]" by simp
    show ?thesis
    proof (cases "field_changes ft (task.truncate r) = []")
      case True
      with Some rows have "diff_for (parseAllFiles fs) (getDbTasks d) i = None"
        by (simp add: diff_for_def map_of_getDbTasks [OF key])
      with r' rows have "rows d' i = [r]" by simp
      with Some True show ?thesis by (simp add: diff_for_def map_of_getDbTasks [OF key'])
    next
      case False
      with Some rows have "diff_for (parseAllFiles fs) (getDbTasks d) i =
          Some (Changed i (field_changes ft (task.truncate r)) ft (task.truncate r))"
        by (simp add: diff_for_def map_of_getDbTasks [OF key])
      with r' rows have "rows d' i = [on_conflict now ft r]" by (simp add: write_rows_def)
      with Some show ?thesis
        by (simp add: diff_for_def map_of_getDbTasks [OF key'] field_changes_on_conflict)
    qed
  qed
qed

lemma apply_diffs_no_write:
  "\<forall>x\<in>set xs. diff_tids x = [] \<Longrightarrow> apply_diffs now xs d = (None, d)"
proof (induction xs)
  case Nil
  then show ?case by simp
next
  case (Cons x xs)
  then have "apply_diff now x d = (None, d)" by (cases x) auto
  with Cons show ?case by simp
qed

lemma no_diff_no_write:
  assumes "\<And>i. diff_for f dbt i = None"
  shows "\<forall>x\<in>set (diffTasks f dbt). diff_tids x = []"
proof
  fix x assume x: "x \<in> set (diffTasks f dbt)"
  show "diff_tids x = []"
  proof (rule ccontr)
    assume "diff_tids x \<noteq> []"
    then obtain i where i: "i \<in> set (diff_tids x)" by (cases "diff_tids x") auto
    have "filter (\<lambda>x. i \<in> set (diff_tids x)) (diffTasks f dbt) = []"
      by (subst filter_diffTasks [where i = i]) (simp_all add: assms)
    with x i show False by (auto simp: filter_empty_conv)
  qed
qed

lemma has_project_ids: "has_project d s \<longleftrightarrow> s \<in> project_ids d"
  by (auto simp: has_project_def project_ids_def list_ex_iff)

lemma project_ids_upsertProject: "project_ids (upsertProject now s d) = insert s (project_ids d)"
  by (auto simp: upsertProject_def has_project_ids) (auto simp: project_ids_def)

lemma create_missing_projects_covers:
  "set known \<union> set missing \<subseteq> project_ids d \<Longrightarrow>
   project_id ` set ts \<subseteq> project_ids (create_missing_projects now known missing ts d)"
proof (induction now known missing ts d rule: create_missing_projects.induct)
  case (1 now known missing d)
  then show ?case by simp
next
  case (2 now known missing t ts d)
  have mono: "project_ids d \<subseteq> project_ids (create_missing_projects now k m ts d)" for k m d
    by (induction now k m ts d rule: create_missing_projects.induct)
       (auto simp: project_ids_upsertProject)
  show ?case
  proof (cases "project_id t \<notin> set known \<and> project_id t \<notin> set missing")
    case True
    have "project_ids (upsertProject now (project_id t) d) \<subseteq>
      project_ids (create_missing_projects now known (project_id t # missing) ts
        (upsertProject now (project_id t) d))" by (rule mono)
    moreover have "project_id ` set ts \<subseteq> project_ids (create_missing_projects now known
        (project_id t # missing) ts (upsertProject now (project_id t) d))"
      using 2 True by (auto simp: project_ids_upsertProject)
    ultimately show ?thesis using True by (auto simp: project_ids_upsertProject)
  next
    case False
    have "project_ids d \<subseteq> project_ids (create_missing_projects now known missing ts d)"
      by (rule mono)
    moreover have "project_id ` set ts \<subseteq> project_ids (create_missing_projects now known missing ts d)"
      using 2 False by auto
    ultimately show ?thesis using False "2.prems" by auto
  qed
qed

lemma create_missing_projects_known:
  "project_id ` set ts \<subseteq> set known \<Longrightarrow> create_missing_projects now known missing ts d = d"
  by (induction now known missing ts d rule: create_missing_projects.induct) auto

subsection \<open>Success of a run, and its transitions\<close>

lemma valid_status_bindable: "valid_status s \<Longrightarrow> bindable s"
  by (auto simp: valid_status_def bindable_def js_def)

lemma apply_added_succeeds:
  assumes "valid_status (status t)" "valid_priority (priority t)" "has_project d (project_id t)"
  shows "fst (apply_added now t d) = None"
proof -
  from assms obtain d1 where u: "upsert now t d = Inr d1"
    by (cases "has_task d (tid t)") (auto simp: upsert_def valid_status_bindable)
  obtain d2 where "insertTransition now (tid t) None (status t) (js ''added via file sync'') d1 = Inr d2"
    using insertTransition_ok [OF upsert_has_task [OF u]] by blast
  with u show ?thesis by (simp add: apply_added_def)
qed

lemma apply_changed_succeeds:
  assumes "valid_status (status t)" "valid_priority (priority t)" "has_project d (project_id t)"
  shows "fst (apply_changed now c t dt d) = None"
proof -
  from assms obtain d1 where u: "upsert now t d = Inr d1"
    by (cases "has_task d (tid t)") (auto simp: upsert_def valid_status_bindable)
  obtain d2 where "insertTransition now (tid t) (Some (status dt)) (status t)
      (js ''file sync: '' @ join (js '', '') c) d1 = Inr d2"
    using insertTransition_ok [OF upsert_has_task [OF u]] by blast
  with u show ?thesis by (simp add: apply_changed_def)
qed

lemma apply_diffs_succeeds:
  assumes "\<forall>x\<in>set xs. case x of
      FileOnly i t \<Rightarrow> valid_status (status t) \<and> valid_priority (priority t) \<and> project_id t \<in> project_ids d
    | Changed i c t dt \<Rightarrow> valid_status (status t) \<and> valid_priority (priority t) \<and> project_id t \<in> project_ids d
    | DbOnly i t \<Rightarrow> True"
  shows "fst (apply_diffs now xs d) = None"
  using assms
proof (induction xs arbitrary: d)
  case Nil
  then show ?case by simp
next
  case (Cons x xs)
  obtain e1 d1 where s: "apply_diff now x d = (e1, d1)" by (cases "apply_diff now x d")
  have "fst (apply_diff now x d) = None"
    using Cons.prems
    by (cases x) (simp_all add: apply_added_succeeds apply_changed_succeeds has_project_ids)
  with s have e1: "e1 = None" by simp
  have pid: "project_ids d1 = project_ids d"
    using apply_diff_frame(1) [OF s] by (simp add: project_ids_def)
  from Cons.prems have "\<forall>x\<in>set xs. case x of
      FileOnly i t \<Rightarrow> valid_status (status t) \<and> valid_priority (priority t) \<and> project_id t \<in> project_ids d1
    | Changed i c t dt \<Rightarrow> valid_status (status t) \<and> valid_priority (priority t) \<and> project_id t \<in> project_ids d1
    | DbOnly i t \<Rightarrow> True"
    unfolding pid by simp
  then have "fst (apply_diffs now xs d1) = None" by (rule Cons.IH)
  with s e1 show ?case by simp
qed

lemma diffTasks_from_file:
  assumes "x \<in> set (diffTasks f dbt)"
  shows "case x of FileOnly i t \<Rightarrow> t \<in> set f | Changed i c t dt \<Rightarrow> t \<in> set f | DbOnly i t \<Rightarrow> True"
  using assms task_map_entry [of _ _ f]
  by (fastforce simp: diffTasks_def diff_file_entry_def diff_db_entry_def
      split: option.splits if_splits diff.splits)

lemma run_files_to_db_succeeds:
  assumes lease: "fst (acquireLock (js ''files-to-db'') now d) = None"
    and valid: "\<forall>t\<in>set (parseAllFiles fs). valid_status (status t) \<and> valid_priority (priority t)"
  shows "fst (run_files_to_db p now fs d) = 0"
proof -
  from lease obtain d1 where a: "acquireLock (js ''files-to-db'') now d = (None, d1)"
    by (cases "acquireLock (js ''files-to-db'') now d") auto
  note fr = acquireLock_None [OF a]
  have g: "getDbTasks d1 = getDbTasks d" using fr(1) by (rule getDbTasks_cong)
  let ?f = "parseAllFiles fs"
  let ?d0 = "create_missing_projects now (map p_id (projects d)) [] ?f d1"
  have cov: "project_id ` set ?f \<subseteq> project_ids ?d0"
    by (rule create_missing_projects_covers) (simp add: project_ids_def fr(3))
  have "fst (apply_diffs now (diffTasks ?f (getDbTasks d)) ?d0) = None"
  proof (rule apply_diffs_succeeds, rule ballI)
    fix x assume "x \<in> set (diffTasks ?f (getDbTasks d))"
    from diffTasks_from_file [OF this] valid cov
    show "case x of
        FileOnly i t \<Rightarrow> valid_status (status t) \<and> valid_priority (priority t) \<and> project_id t \<in> project_ids ?d0
      | Changed i c t dt \<Rightarrow> valid_status (status t) \<and> valid_priority (priority t) \<and> project_id t \<in> project_ids ?d0
      | DbOnly i t \<Rightarrow> True"
      by (cases x) auto
  qed
  then obtain d2 where "apply_diffs now (diffTasks ?f (getDbTasks d)) ?d0 = (None, d2)"
    by (cases "apply_diffs now (diffTasks ?f (getDbTasks d)) ?d0") auto
  with a show ?thesis
    by (simp add: run_files_to_db_def sync_locked_def syncFilesToDb_def finish_sync_def g fr(3))
qed

text \<open>
  C8 (transitions): a text-to-store run that takes the lease succeeds when every record of
  the text has a status and a priority the store accepts. A run that succeeds only appends
  to the transitions, and for every id \<open>i\<close> it appends exactly: one transition with no
  previous status and the record's status when the text declares \<open>i\<close> and the store has no
  row for it; one transition from the stored status to the record's status when both have
  it and the statuses differ; none otherwise. Each carries the actor \<^verbatim>\<open>sync\<close> and, for a
  change, the reason listing the changed fields.
\<close>

theorem transitions_appended_on_status:
  assumes run: "run_files_to_db p now fs d = (c, d')"
    and key: "distinct (map tid (tasks_v2 d))"
  shows "(fst (acquireLock (js ''files-to-db'') now d) = None \<and>
          (\<forall>t\<in>set (parseAllFiles fs). valid_status (status t) \<and> valid_priority (priority t))
          \<longrightarrow> c = 0) \<and>
    (c = 0 \<longrightarrow>
      take (length (task_transitions_v2 d)) (task_transitions_v2 d') = task_transitions_v2 d \<and>
      filter (\<lambda>y. task_id y = i) (task_transitions_v2 d') =
      filter (\<lambda>y. task_id y = i) (task_transitions_v2 d) @
      (case map_of (task_map (parseAllFiles fs)) i of
         None \<Rightarrow> []
       | Some ft \<Rightarrow>
          (case filter (\<lambda>r. tid r = i) (tasks_v2 d) of
             [] \<Rightarrow>
               [\<lparr>task_id = i, from_status = None, to_status = status ft,
                 reason = Some (js ''added via file sync''), actor = Some (js ''sync''),
                 actor_model = None, at = sql_strftime_iso now\<rparr>]
           | r # rs \<Rightarrow>
               if status r \<noteq> status ft
               then [\<lparr>task_id = i, from_status = Some (status r), to_status = status ft,
                      reason = Some (js ''file sync: '' @
                                 join (js '', '') (field_changes ft (task.truncate r))),
                      actor = Some (js ''sync''), actor_model = None,
                      at = sql_strftime_iso now\<rparr>]
               else [])))"
proof (intro conjI impI)
  assume "fst (acquireLock (js ''files-to-db'') now d) = None \<and>
          (\<forall>t\<in>set (parseAllFiles fs). valid_status (status t) \<and> valid_priority (priority t))"
  then have "fst (run_files_to_db p now fs d) = 0" by (intro run_files_to_db_succeeds) auto
  with run show "c = 0" by simp
next
  assume "c = 0"
  with run have run0: "run_files_to_db p now fs d = (0, d')" by simp
  note tr = run_files_to_db_ok_rows(2) [OF run0]
  show "take (length (task_transitions_v2 d)) (task_transitions_v2 d') = task_transitions_v2 d"
    by (simp add: tr)
  have st: "status (task.truncate r) = status r" for r :: task_row
    by (simp add: task.truncate_def)
  have "(case diff_for (parseAllFiles fs) (getDbTasks d) i of
            None \<Rightarrow> [] | Some x \<Rightarrow> diff_transitions now x) =
    (case map_of (task_map (parseAllFiles fs)) i of
       None \<Rightarrow> []
     | Some ft \<Rightarrow>
        (case rows d i of
           [] \<Rightarrow> [transition_row now i None (status ft) (js ''added via file sync'')]
         | r # rs \<Rightarrow>
             if status r \<noteq> status ft
             then [transition_row now i (Some (status r)) (status ft)
                    (js ''file sync: '' @ join (js '', '') (field_changes ft (task.truncate r)))]
             else []))"
  proof (cases "map_of (task_map (parseAllFiles fs)) i")
    case None
    then show ?thesis by (simp add: diff_for_def)
  next
    case (Some ft)
    then have i: "tid ft = i" using map_of_task_map_Some by blast
    show ?thesis
    proof (cases "rows d i")
      case Nil
      with Some i show ?thesis by (simp add: diff_for_def map_of_getDbTasks [OF key])
    next
      case (Cons r rs)
      with Some i show ?thesis
        by (auto simp: diff_for_def map_of_getDbTasks [OF key] st field_changes_def)
    qed
  qed
  then show "filter (\<lambda>y. task_id y = i) (task_transitions_v2 d') =
      filter (\<lambda>y. task_id y = i) (task_transitions_v2 d) @
      (case map_of (task_map (parseAllFiles fs)) i of
         None \<Rightarrow> []
       | Some ft \<Rightarrow>
          (case filter (\<lambda>r. tid r = i) (tasks_v2 d) of
             [] \<Rightarrow>
               [\<lparr>task_id = i, from_status = None, to_status = status ft,
                 reason = Some (js ''added via file sync''), actor = Some (js ''sync''),
                 actor_model = None, at = sql_strftime_iso now\<rparr>]
           | r # rs \<Rightarrow>
               if status r \<noteq> status ft
               then [\<lparr>task_id = i, from_status = Some (status r), to_status = status ft,
                      reason = Some (js ''file sync: '' @
                                 join (js '', '') (field_changes ft (task.truncate r))),
                      actor = Some (js ''sync''), actor_model = None,
                      at = sql_strftime_iso now\<rparr>]
               else []))"
    unfolding tr transition_row_def rows_def
    by (simp add: filter_transitions_diffTasks)
qed

subsection \<open>A run on a store in step with the text\<close>

lemma run_noop:
  assumes nodiff: "\<And>i. diff_for (parseAllFiles fs) (getDbTasks d) i = None"
    and proj: "project_id ` set (parseAllFiles fs) \<subseteq> project_ids d"
    and s: "sync_state d = Some s" "lock_owner s = None"
  shows "run_files_to_db p now fs d =
    (0, d\<lparr>sync_state := Some (s\<lparr>files_hash := Some (hashTasks p (parseAllFiles fs)),
            db_hash := Some (hashTasks p (getDbTasks d)),
            last_sync_at := Some (toISOString now), lock_owner := None, lock_until := None,
            last_result := Some (js ''ok'')\<rparr>)\<rparr>)"
proof -
  let ?d1 = "d\<lparr>sync_state := Some (s\<lparr>lock_owner := Some (js ''task-sync:'' @ js ''files-to-db''),
     lock_until := Some (toISOString (now + 60000))\<rparr>)\<rparr>"
  have a: "acquireLock (js ''files-to-db'') now d = (None, ?d1)"
    using s by (simp add: acquireLock_def ensure_singleton_def lock_free_def)
  have g: "getDbTasks ?d1 = getDbTasks d" by (simp add: getDbTasks_def)
  have c: "create_missing_projects now (map p_id (projects d)) [] (parseAllFiles fs) ?d1 = ?d1"
    using proj by (intro create_missing_projects_known) (simp add: project_ids_def)
  have ap: "apply_diffs now (diffTasks (parseAllFiles fs) (getDbTasks d)) ?d1 = (None, ?d1)"
    by (intro apply_diffs_no_write no_diff_no_write nodiff)
  show ?thesis
    unfolding run_files_to_db_def a
    by (simp add: sync_locked_def syncFilesToDb_def g c ap finish_sync_def update_hashes_def
        releaseLock_def)
qed

text \<open>
  C5 (idempotence): after a text-to-store run that succeeded on a store whose task ids are
  unique, a second run on the same text files succeeds and leaves the tasks (with their
  \<^verbatim>\<open>updated_at\<close>), the transitions and the projects as they were; the two fingerprints the
  first run stored are those of the text and of the store, and the second run stores the
  same two.
\<close>

theorem second_apply_changes_nothing:
  assumes run: "run_files_to_db p now fs d = (0, d')"
    and key: "distinct (map tid (tasks_v2 d))"
  shows "\<exists>d'' s' s''.
    run_files_to_db p now' fs d' = (0, d'') \<and>
    tasks_v2 d'' = tasks_v2 d' \<and>
    task_transitions_v2 d'' = task_transitions_v2 d' \<and>
    projects d'' = projects d' \<and>
    sync_state d' = Some s' \<and> sync_state d'' = Some s'' \<and>
    files_hash s' = Some (hashTasks p (parseAllFiles fs)) \<and>
    db_hash s' = Some (hashTasks p (getDbTasks d')) \<and>
    files_hash s'' = files_hash s' \<and> db_hash s'' = db_hash s'"
proof -
  from run obtain d1 d2 where
    a: "acquireLock (js ''files-to-db'') now d = (None, d1)" and
    b: "apply_diffs now (diffTasks (parseAllFiles fs) (getDbTasks d))
       (create_missing_projects now (map p_id (projects d)) [] (parseAllFiles fs) d1) = (None, d2)" and
    c: "d' = releaseLock (js ''ok'') now
            (update_hashes (hashTasks p (parseAllFiles fs)) (hashTasks p (getDbTasks d2)) d2)"
    by (rule run_files_to_db_ok)
  note fr = acquireLock_None [OF a]
  let ?d0 = "create_missing_projects now (map p_id (projects d)) [] (parseAllFiles fs) d1"
  from fr(4) obtain r1 where r1: "sync_state d1 = Some r1" by blast
  have "sync_state d2 = sync_state ?d0" using apply_diffs_frame [OF b, of undefined] by simp
  then have r2: "sync_state d2 = Some r1" by (simp add: create_missing_projects_frame r1)
  have g: "getDbTasks d' = getDbTasks d2"
    by (rule getDbTasks_cong) (simp add: c releaseLock_frame update_hashes_frame)
  define s' where "s' = r1\<lparr>files_hash := Some (hashTasks p (parseAllFiles fs)),
      db_hash := Some (hashTasks p (getDbTasks d2)), lock_owner := None, lock_until := None,
      last_sync_at := Some (toISOString now), last_result := Some (js ''ok'')\<rparr>"
  have s': "sync_state d' = Some s'"
    by (simp add: c releaseLock_def update_hashes_def r2 s'_def)
  have "project_id ` set (parseAllFiles fs) \<subseteq> project_ids ?d0"
    by (rule create_missing_projects_covers) (simp add: project_ids_def fr(3))
  moreover have "projects d' = projects ?d0"
    using apply_diffs_frame [OF b, of undefined]
    by (simp add: c releaseLock_frame update_hashes_frame)
  ultimately have proj: "project_id ` set (parseAllFiles fs) \<subseteq> project_ids d'"
    by (simp add: project_ids_def)
  have lo: "lock_owner s' = None" by (simp add: s'_def)
  note n = run_noop [OF run_leaves_no_diff [OF run key] proj s' lo, of p now']
  define s'' where "s'' = s'\<lparr>files_hash := Some (hashTasks p (parseAllFiles fs)),
            db_hash := Some (hashTasks p (getDbTasks d')),
            last_sync_at := Some (toISOString now'), lock_owner := None, lock_until := None,
            last_result := Some (js ''ok'')\<rparr>"
  have "run_files_to_db p now' fs d' = (0, d'\<lparr>sync_state := Some s''\<rparr>)"
    unfolding s''_def by (rule n)
  moreover have "files_hash s'' = files_hash s'" "db_hash s'' = db_hash s'"
    "files_hash s' = Some (hashTasks p (parseAllFiles fs))"
    "db_hash s' = Some (hashTasks p (getDbTasks d'))"
    by (simp_all add: s''_def s'_def g)
  ultimately show ?thesis
    using s' by (intro exI [of _ "d'\<lparr>sync_state := Some s''\<rparr>"] exI [of _ s'] exI [of _ s'']) simp
qed

subsection \<open>Sorting with a comparator\<close>

lemma set_insert_by: "set (insert_by le x xs) = insert x (set xs)"
  using mset_insert_by [of le x xs] by (metis set_mset_add_mset_insert set_mset_mset)

lemma sorted_insert_by:
  assumes tot: "\<And>a b. le a b \<or> le b a" and tr: "\<And>a b c. le a b \<Longrightarrow> le b c \<Longrightarrow> le a c"
  shows "sorted_wrt le xs \<Longrightarrow> sorted_wrt le (insert_by le x xs)"
proof (induction xs)
  case Nil
  then show ?case by simp
next
  case (Cons y ys)
  show ?case
  proof (cases "le x y")
    case True
    with Cons.prems tr show ?thesis by auto
  next
    case False
    with tot have "le y x" by blast
    with Cons False show ?thesis by (auto simp: set_insert_by)
  qed
qed

lemma sorted_sort_by:
  assumes "\<And>a b. le a b \<or> le b a" and "\<And>a b c. le a b \<Longrightarrow> le b c \<Longrightarrow> le a c"
  shows "sorted_wrt le (sort_by le xs)"
proof (induction xs)
  case Nil
  then show ?case by (simp add: sort_by_def)
next
  case (Cons x xs)
  then have "sorted_wrt le (foldr (insert_by le) xs [])" by (simp add: sort_by_def)
  then have "sorted_wrt le (insert_by le x (foldr (insert_by le) xs []))"
    by (rule sorted_insert_by [rotated 2]) (fact assms)+
  then show ?case by (simp add: sort_by_def)
qed

lemma sorted_wrt_mset_unique:
  "sorted_wrt R xs \<Longrightarrow> sorted_wrt R ys \<Longrightarrow> mset xs = mset ys \<Longrightarrow>
   (\<And>a b. a \<in> set xs \<Longrightarrow> b \<in> set xs \<Longrightarrow> R a b \<Longrightarrow> R b a \<Longrightarrow> a = b) \<Longrightarrow> xs = ys"
proof (induction xs arbitrary: ys)
  case Nil
  then show ?case by simp
next
  case (Cons x xs)
  from Cons.prems(3) obtain y ys' where ys: "ys = y # ys'" by (cases ys) auto
  have sets: "set (x # xs) = set (y # ys')" using Cons.prems(3) ys by (metis set_mset_mset)
  have "x = y"
  proof (rule ccontr)
    assume ne: "x \<noteq> y"
    with sets have mem: "x \<in> set ys'" "y \<in> set xs" by auto
    with Cons.prems(1,2) ys have "R y x" "R x y" by auto
    with Cons.prems(4) [of x y] mem ne show False by auto
  qed
  with Cons.prems ys have "xs = ys'" by (intro Cons.IH) auto
  with \<open>x = y\<close> ys show ?case by simp
qed

lemma sort_by_permutation:
  assumes tot: "\<And>a b. le a b \<or> le b a" and tr: "\<And>a b c. le a b \<Longrightarrow> le b c \<Longrightarrow> le a c"
    and anti: "\<And>a b. a \<in> set xs \<Longrightarrow> b \<in> set xs \<Longrightarrow> le a b \<Longrightarrow> le b a \<Longrightarrow> a = b"
    and perm: "mset xs = mset ys"
  shows "sort_by le xs = sort_by le ys"
proof (rule sorted_wrt_mset_unique)
  show "sorted_wrt le (sort_by le xs)" "sorted_wrt le (sort_by le ys)"
    by (rule sorted_sort_by; fact)+
  show "mset (sort_by le xs) = mset (sort_by le ys)" by (simp add: mset_sort_by perm)
  show "a = b" if "a \<in> set (sort_by le xs)" "b \<in> set (sort_by le xs)" "le a b" "le b a" for a b
    using that anti by (simp add: set_sort_by)
qed

lemma hashTasks_perm:
  assumes perm: "mset xs = mset ys"
    and key: "distinct (map tid xs)"
    and tot: "\<forall>a b. localeCompare p a b \<le> 0 \<or> localeCompare p b a \<le> 0"
    and tr: "\<forall>a b c. localeCompare p a b \<le> 0 \<longrightarrow> localeCompare p b c \<le> 0 \<longrightarrow> localeCompare p a c \<le> 0"
    and sep: "\<forall>a\<in>set xs. \<forall>b\<in>set xs.
               localeCompare p (tid a) (tid b) \<le> 0 \<longrightarrow> localeCompare p (tid b) (tid a) \<le> 0 \<longrightarrow> tid a = tid b"
  shows "hash_data p xs = hash_data p ys"
proof -
  let ?le = "\<lambda>a b. localeCompare p (tid a) (tid b) \<le> 0"
  have "sort_by ?le xs = sort_by ?le ys"
  proof (rule sort_by_permutation [OF _ _ _ perm])
    show "?le a b \<or> ?le b a" for a b using tot by blast
    show "?le a b \<Longrightarrow> ?le b c \<Longrightarrow> ?le a c" for a b c using tr by blast
    show "a = b" if "a \<in> set xs" "b \<in> set xs" "?le a b" "?le b a" for a b
    proof -
      from that sep have "tid a = tid b" by blast
      with key that show ?thesis by (meson distinct_map inj_onD)
    qed
  qed
  then show ?thesis by (simp add: hash_data_def)
qed

subsection \<open>The diff of two sets keyed by id\<close>

lemma map_set_fresh: "k \<notin> fst ` set m \<Longrightarrow> map_set m k v = m @ [(k, v)]"
  by (induction m) auto

lemma new_Map_distinct: "distinct (map fst kvs) \<Longrightarrow> new_Map kvs = kvs"
proof -
  have "distinct (map fst (m @ kvs)) \<Longrightarrow> foldl (\<lambda>m (k, v). map_set m k v) m kvs = m @ kvs" for m
  proof (induction kvs arbitrary: m)
    case Nil
    then show ?case by simp
  next
    case (Cons a kvs)
    obtain k v where a: "a = (k, v)" by (cases a)
    from Cons.prems a have "map_set m k v = m @ [(k, v)]" by (intro map_set_fresh) auto
    with Cons.IH [of "m @ [(k, v)]"] Cons.prems a show ?case by simp
  qed
  from this [of "[]"] show "distinct (map fst kvs) \<Longrightarrow> new_Map kvs = kvs"
    by (simp add: new_Map_def)
qed

lemma task_map_distinct: "distinct (map tid ts) \<Longrightarrow> task_map ts = map (\<lambda>t. (tid t, t)) ts"
  by (simp add: task_map_def new_Map_distinct comp_def)

lemma map_of_task_map_iff:
  "distinct (map tid ts) \<Longrightarrow> map_of (task_map ts) k = Some t \<longleftrightarrow> t \<in> set ts \<and> tid t = k"
  using map_of_task_map_distinct [of ts t] map_of_task_map_Some [of ts k t] by auto

lemma field_changes_Nil: "field_changes ft dt = [] \<longleftrightarrow> same_compared ft dt"
  by (auto simp: field_changes_def same_compared_def)

lemma diffTasks_Nil:
  assumes fkey: "distinct (map tid f)" and dkey: "distinct (map tid dbt)"
  shows "diffTasks f dbt = [] \<longleftrightarrow>
    tid ` set f = tid ` set dbt \<and>
    (\<forall>ft\<in>set f. \<forall>dt\<in>set dbt. tid ft = tid dt \<longrightarrow> same_compared ft dt)"
proof -
  have A: "concat (map (diff_file_entry (task_map dbt)) (task_map f)) = [] \<longleftrightarrow>
      (\<forall>ft\<in>set f. \<exists>dt\<in>set dbt. tid dt = tid ft \<and> same_compared ft dt)"
  proof -
    have "diff_file_entry (task_map dbt) (tid ft, ft) = [] \<longleftrightarrow>
        (\<exists>dt\<in>set dbt. tid dt = tid ft \<and> same_compared ft dt)" for ft
    proof (cases "map_of (task_map dbt) (tid ft)")
      case None
      then have "tid ft \<notin> tid ` set dbt" by (simp add: map_of_task_map_None)
      then have "\<not> (\<exists>dt\<in>set dbt. tid dt = tid ft \<and> same_compared ft dt)"
        by (metis image_eqI)
      with None show ?thesis by (simp add: diff_file_entry_def)
    next
      case (Some dt)
      then have dt: "dt \<in> set dbt" "tid dt = tid ft" using map_of_task_map_Some by blast+
      have uniq: "dt' = dt" if "dt' \<in> set dbt" "tid dt' = tid ft" for dt'
        using that dt dkey by (metis distinct_map inj_onD)
      have "(\<exists>dt'\<in>set dbt. tid dt' = tid ft \<and> same_compared ft dt') \<longleftrightarrow> same_compared ft dt"
        using uniq dt by blast
      with Some show ?thesis by (simp add: diff_file_entry_def field_changes_Nil)
    qed
    then show ?thesis by (simp add: task_map_distinct [OF fkey])
  qed
  have B: "concat (map (diff_db_entry (task_map f)) (task_map dbt)) = [] \<longleftrightarrow>
      tid ` set dbt \<subseteq> tid ` set f"
  proof -
    have "diff_db_entry (task_map f) (tid dt, dt) = [] \<longleftrightarrow> tid dt \<in> tid ` set f" for dt
      using map_of_task_map_None [of f "tid dt"]
      by (auto simp: diff_db_entry_def split: option.splits)
    then show ?thesis by (auto simp: task_map_distinct [OF dkey])
  qed
  show ?thesis
    unfolding diffTasks_def append_is_Nil_conv A B
  proof (intro iffI conjI; (elim conjE)?)
    assume a: "\<forall>ft\<in>set f. \<exists>dt\<in>set dbt. tid dt = tid ft \<and> same_compared ft dt"
      and b: "tid ` set dbt \<subseteq> tid ` set f"
    from a have "tid ` set f \<subseteq> tid ` set dbt" by (metis image_eqI image_subsetI)
    with b show "tid ` set f = tid ` set dbt" by blast
    show "\<forall>ft\<in>set f. \<forall>dt\<in>set dbt. tid ft = tid dt \<longrightarrow> same_compared ft dt"
    proof (intro ballI impI)
      fix ft dt assume "ft \<in> set f" "dt \<in> set dbt" "tid ft = tid dt"
      moreover from a \<open>ft \<in> set f\<close> obtain dt' where
        "dt' \<in> set dbt" "tid dt' = tid ft" "same_compared ft dt'" by blast
      ultimately show "same_compared ft dt" using dkey by (metis distinct_map inj_onD)
    qed
  next
    assume ids: "tid ` set f = tid ` set dbt"
      and c: "\<forall>ft\<in>set f. \<forall>dt\<in>set dbt. tid ft = tid dt \<longrightarrow> same_compared ft dt"
    show "\<forall>ft\<in>set f. \<exists>dt\<in>set dbt. tid dt = tid ft \<and> same_compared ft dt"
    proof
      fix ft assume ft: "ft \<in> set f"
      with ids obtain dt where "dt \<in> set dbt" "tid dt = tid ft" by (metis imageE imageI)
      with c ft show "\<exists>dt\<in>set dbt. tid dt = tid ft \<and> same_compared ft dt" by auto
    qed
    from ids show "tid ` set dbt \<subseteq> tid ` set f" by simp
  qed
qed

subsection \<open>Fingerprints of field-equal sets\<close>

lemma or_empty_or_null [simp]: "or_empty (or_null v) = or_empty v"
  by (auto simp: or_empty_def or_null_def split: option.splits)

lemma hash_line_hashed_fields [simp]: "hash_line (hashed_fields t) = hash_line t"
  by (simp add: hash_line_def hashed_fields_def)

lemma tid_hashed_fields [simp]: "tid (hashed_fields t) = tid t"
  by (simp add: hashed_fields_def)

lemma insert_by_map:
  "(\<And>a b. le' (g a) (g b) = le a b) \<Longrightarrow>
   insert_by le' (g x) (map g xs) = map g (insert_by le x xs)"
  by (induction xs) auto

lemma sort_by_map:
  "(\<And>a b. le' (g a) (g b) = le a b) \<Longrightarrow> sort_by le' (map g xs) = map g (sort_by le xs)"
  by (induction xs) (auto simp: sort_by_def insert_by_map)

lemma hash_data_hashed_fields: "hash_data p (map hashed_fields xs) = hash_data p xs"
proof -
  have "sort_by (\<lambda>a b. localeCompare p (tid a) (tid b) \<le> 0) (map hashed_fields xs) =
        map hashed_fields (sort_by (\<lambda>a b. localeCompare p (tid a) (tid b) \<le> 0) xs)"
    by (rule sort_by_map) simp
  then show ?thesis by (simp add: hash_data_def comp_def)
qed

lemma hashed_fields_eq:
  "tid ft = tid dt \<Longrightarrow> same_compared ft dt \<Longrightarrow> same_notes ft dt \<Longrightarrow>
   hashed_fields ft = hashed_fields dt"
  by (simp add: hashed_fields_def same_compared_def same_notes_def)

lemma hash_data_field_equal:
  assumes fkey: "distinct (map tid f)" and dkey: "distinct (map tid dbt)"
    and tot: "\<forall>a b. localeCompare p a b \<le> 0 \<or> localeCompare p b a \<le> 0"
    and tr: "\<forall>a b c. localeCompare p a b \<le> 0 \<longrightarrow> localeCompare p b c \<le> 0 \<longrightarrow> localeCompare p a c \<le> 0"
    and sep: "\<forall>a\<in>set f. \<forall>b\<in>set f.
               localeCompare p (tid a) (tid b) \<le> 0 \<longrightarrow> localeCompare p (tid b) (tid a) \<le> 0 \<longrightarrow> tid a = tid b"
    and ids: "tid ` set f = tid ` set dbt"
    and eq: "\<forall>ft\<in>set f. \<forall>dt\<in>set dbt. tid ft = tid dt \<longrightarrow> same_compared ft dt \<and> same_notes ft dt"
  shows "hash_data p f = hash_data p dbt"
proof -
  let ?f = "map hashed_fields f" and ?d = "map hashed_fields dbt"
  have df: "distinct (map tid ?f)" "distinct (map tid ?d)"
    using fkey dkey by (simp_all add: comp_def)
  then have dd: "distinct ?f" "distinct ?d" by (metis distinct_map)+
  have sets: "set ?f = set ?d"
  proof (intro equalityI subsetI)
    fix x assume "x \<in> set ?f"
    then obtain ft where ft: "ft \<in> set f" "x = hashed_fields ft" by auto
    with ids obtain dt where dt: "dt \<in> set dbt" "tid ft = tid dt" by (metis imageE imageI)
    with eq ft have "hashed_fields ft = hashed_fields dt" by (intro hashed_fields_eq) auto
    with ft dt show "x \<in> set ?d" by auto
  next
    fix x assume "x \<in> set ?d"
    then obtain dt where dt: "dt \<in> set dbt" "x = hashed_fields dt" by auto
    with ids obtain ft where ft: "ft \<in> set f" "tid ft = tid dt" by (metis imageE imageI)
    with eq dt have "hashed_fields ft = hashed_fields dt" by (intro hashed_fields_eq) auto
    with ft dt show "x \<in> set ?f" by (metis image_eqI list.set_map)
  qed
  have perm: "mset ?f = mset ?d"
    using set_eq_iff_mset_eq_distinct [OF dd] sets by blast
  have "hash_data p ?f = hash_data p ?d"
  proof (rule hashTasks_perm [OF perm df(1) tot tr])
    show "\<forall>a\<in>set ?f. \<forall>b\<in>set ?f. localeCompare p (tid a) (tid b) \<le> 0 \<longrightarrow>
        localeCompare p (tid b) (tid a) \<le> 0 \<longrightarrow> tid a = tid b"
      using sep by auto
  qed
  then show ?thesis by (simp add: hash_data_hashed_fields)
qed

subsection \<open>The canonical text tells delimiter-free records apart\<close>

lemma or_empty_eq: "or_empty a = or_empty b \<longleftrightarrow> or_null a = or_null b"
  by (auto simp: or_empty_def or_null_def split: option.splits)

lemma split_at_delimiter:
  "c \<notin> set u \<Longrightarrow> c \<notin> set u' \<Longrightarrow> u @ c # r = u' @ c # r' \<Longrightarrow> u = u' \<and> r = r'"
proof (induction u arbitrary: u')
  case Nil
  then show ?case by (cases u') auto
next
  case (Cons a u)
  then show ?case by (cases u') auto
qed

lemma hash_line_inj:
  assumes a: "delimiter_free a" and b: "delimiter_free b" and eq: "hash_line a = hash_line b"
  shows "hashed_fields a = hashed_fields b"
proof -
  from eq have e0: "tid a @ 124 # status a @ 124 # priority a @ 124 # or_empty (owner_model a) @
      124 # title a @ 124 # or_empty (notes' a) =
    tid b @ 124 # status b @ 124 # priority b @ 124 # or_empty (owner_model b) @
      124 # title b @ 124 # or_empty (notes' b)"
    by (simp add: hash_line_def js_def)
  from a b have f: "124 \<notin> set (tid a)" "124 \<notin> set (tid b)"
    "124 \<notin> set (status a)" "124 \<notin> set (status b)"
    "124 \<notin> set (priority a)" "124 \<notin> set (priority b)"
    "124 \<notin> set (or_empty (owner_model a))" "124 \<notin> set (or_empty (owner_model b))"
    "124 \<notin> set (title a)" "124 \<notin> set (title b)"
    by (simp_all add: delimiter_free_def)
  note e1 = split_at_delimiter [OF f(1,2) e0]
  note e2 = split_at_delimiter [OF f(3,4) e1 [THEN conjunct2]]
  note e3 = split_at_delimiter [OF f(5,6) e2 [THEN conjunct2]]
  note e4 = split_at_delimiter [OF f(7,8) e3 [THEN conjunct2]]
  note e5 = split_at_delimiter [OF f(9,10) e4 [THEN conjunct2]]
  from e1 e2 e3 e4 e5 show ?thesis
    by (simp add: hashed_fields_def or_empty_eq [symmetric])
qed

lemma hash_line_shape: "hash_line t \<noteq> []" "delimiter_free t \<Longrightarrow> 10 \<notin> set (hash_line t)"
  by (simp_all add: hash_line_def js_def delimiter_free_def)

lemma join_Cons:
  "join [10] (x # xs) = (if xs = [] then x else x @ 10 # join [10] xs)"
  by (cases xs) auto

lemma join_lf_inj:
  assumes "\<forall>l\<in>set ls. l \<noteq> [] \<and> 10 \<notin> set l" "\<forall>l\<in>set ms. l \<noteq> [] \<and> 10 \<notin> set l"
    and "join [10] ls = join [10] ms"
  shows "ls = ms"
  using assms
proof (induction ls arbitrary: ms)
  case Nil
  then show ?case by (cases ms) (auto simp: join_Cons split: if_splits)
next
  case (Cons x xs)
  from Cons.prems obtain m ms' where ms: "ms = m # ms'"
    by (cases ms) (auto simp: join_Cons split: if_splits)
  from Cons.prems ms have x: "10 \<notin> set x" "10 \<notin> set m" by auto
  show ?case
  proof (cases "xs = []")
    case True
    with Cons.prems ms x show ?thesis by (auto simp: join_Cons split: if_splits)
  next
    case False
    with Cons.prems ms x have ne: "ms' \<noteq> []" by (auto simp: join_Cons split: if_splits)
    with Cons.prems ms False have "x @ 10 # join [10] xs = m @ 10 # join [10] ms'"
      by (simp add: join_Cons)
    from split_at_delimiter [OF x this] have "x = m" "join [10] xs = join [10] ms'" by auto
    with Cons.IH [of ms'] Cons.prems ms show ?thesis by simp
  qed
qed

lemma hash_data_inj:
  assumes free: "\<forall>t\<in>set xs \<union> set ys. delimiter_free t"
    and eq: "hash_data p xs = hash_data p ys"
  shows "hashed_fields ` set xs = hashed_fields ` set ys"
proof -
  let ?sx = "sort_by (\<lambda>a b. localeCompare p (tid a) (tid b) \<le> 0) xs"
  let ?sy = "sort_by (\<lambda>a b. localeCompare p (tid a) (tid b) \<le> 0) ys"
  have sets: "set ?sx = set xs" "set ?sy = set ys" by (simp_all add: set_sort_by)
  have "map hash_line ?sx = map hash_line ?sy"
  proof (rule join_lf_inj)
    show "\<forall>l\<in>set (map hash_line ?sx). l \<noteq> [] \<and> 10 \<notin> set l"
      using free by (auto simp: sets hash_line_shape)
    show "\<forall>l\<in>set (map hash_line ?sy). l \<noteq> [] \<and> 10 \<notin> set l"
      using free by (auto simp: sets hash_line_shape)
    show "join [10] (map hash_line ?sx) = join [10] (map hash_line ?sy)"
      using eq by (simp add: hash_data_def)
  qed
  then have "list_all2 (\<lambda>a b. hash_line a = hash_line b) ?sx ?sy"
    by (simp add: list_all2_conv_all_nth map_equality_iff)
  then have "list_all2 (\<lambda>a b. hashed_fields a = hashed_fields b) ?sx ?sy"
    by (rule list.rel_mono_strong) (use free in \<open>auto simp: sets intro: hash_line_inj\<close>)
  then have "map hashed_fields ?sx = map hashed_fields ?sy"
    by (simp add: list_all2_conv_all_nth map_equality_iff)
  then have "set (map hashed_fields ?sx) = set (map hashed_fields ?sy)" by simp
  then show ?thesis by (simp add: sets)
qed

lemma hashed_fields_same:
  "hashed_fields a = hashed_fields b \<Longrightarrow> tid a = tid b \<and> same_compared a b \<and> same_notes a b"
  by (simp add: hashed_fields_def same_compared_def same_notes_def)

lemma hash_data_tells_apart:
  assumes ykey: "distinct (map tid ys)"
    and free: "\<forall>t\<in>set xs \<union> set ys. delimiter_free t"
    and eq: "hash_data p xs = hash_data p ys"
  shows "tid ` set xs = tid ` set ys \<and>
    (\<forall>a\<in>set xs. \<forall>b\<in>set ys. tid a = tid b \<longrightarrow> same_compared a b \<and> same_notes a b)"
proof -
  note img = hash_data_inj [OF free eq]
  have "tid ` hashed_fields ` set xs = tid ` hashed_fields ` set ys" using img by simp
  then have ids: "tid ` set xs = tid ` set ys" by (simp add: image_image)
  have "same_compared a b \<and> same_notes a b" if "a \<in> set xs" "b \<in> set ys" "tid a = tid b" for a b
  proof -
    from that(1) img obtain b' where b': "b' \<in> set ys" "hashed_fields a = hashed_fields b'"
      by blast
    from hashed_fields_same [OF b'(2)] that(3) have "tid b' = tid b" by simp
    with ykey b'(1) that(2) have "b' = b" by (meson distinct_map inj_onD)
    with hashed_fields_same [OF b'(2)] show ?thesis by simp
  qed
  with ids show ?thesis by blast
qed

text \<open>
  C9, as amended (the fingerprint is the truncated digest of a canonical text of the six
  projected fields): for a collation that is a total preorder and tells the ids at hand
  apart, two sets with unique ids that are field-equal (the same ids, and for each id the
  same status, priority, owner, title and note, null and the empty string alike) have the
  same fingerprint, in whatever order the records come. When no field holds a delimiter,
  the converse holds for the canonical text: it is the same exactly for field-equal sets,
  so two sets that differ in a projected field have different fingerprints unless the
  truncated digest collides on their two texts.
\<close>

theorem fingerprint_on_projected_fields:
  assumes xkey: "distinct (map tid xs)" and ykey: "distinct (map tid ys)"
    and tot: "\<forall>a b. localeCompare p a b \<le> 0 \<or> localeCompare p b a \<le> 0"
    and tr: "\<forall>a b c. localeCompare p a b \<le> 0 \<longrightarrow> localeCompare p b c \<le> 0 \<longrightarrow> localeCompare p a c \<le> 0"
    and sep: "\<forall>a\<in>set xs. \<forall>b\<in>set xs.
               localeCompare p (tid a) (tid b) \<le> 0 \<longrightarrow> localeCompare p (tid b) (tid a) \<le> 0 \<longrightarrow> tid a = tid b"
  shows
    "(tid ` set xs = tid ` set ys \<and>
      (\<forall>a\<in>set xs. \<forall>b\<in>set ys. tid a = tid b \<longrightarrow> same_compared a b \<and> same_notes a b)
      \<longrightarrow> hashTasks p xs = hashTasks p ys) \<and>
     ((\<forall>t\<in>set xs \<union> set ys. delimiter_free t) \<longrightarrow>
        (hash_data p xs = hash_data p ys \<longleftrightarrow>
           tid ` set xs = tid ` set ys \<and>
           (\<forall>a\<in>set xs. \<forall>b\<in>set ys. tid a = tid b \<longrightarrow> same_compared a b \<and> same_notes a b)) \<and>
        (\<not> (tid ` set xs = tid ` set ys \<and>
            (\<forall>a\<in>set xs. \<forall>b\<in>set ys. tid a = tid b \<longrightarrow> same_compared a b \<and> same_notes a b)) \<and>
         inj_on (\<lambda>s. take 16 (sha256_hex p s)) {hash_data p xs, hash_data p ys}
         \<longrightarrow> hashTasks p xs \<noteq> hashTasks p ys))"
proof -
  define F where "F \<longleftrightarrow> tid ` set xs = tid ` set ys \<and>
      (\<forall>a\<in>set xs. \<forall>b\<in>set ys. tid a = tid b \<longrightarrow> same_compared a b \<and> same_notes a b)"
  define free where "free \<longleftrightarrow> (\<forall>t\<in>set xs \<union> set ys. delimiter_free t)"
  define inj where "inj \<longleftrightarrow> inj_on (\<lambda>s. take 16 (sha256_hex p s)) {hash_data p xs, hash_data p ys}"
  have fwd: "hash_data p xs = hash_data p ys" if F
    using that unfolding F_def by (intro hash_data_field_equal [OF xkey ykey tot tr sep]) auto
  have bwd: F if free "hash_data p xs = hash_data p ys"
    using hash_data_tells_apart [OF ykey that [unfolded free_def]] unfolding F_def .
  have digest: "hash_data p xs = hash_data p ys" if inj "hashTasks p xs = hashTasks p ys"
  proof (rule inj_onD [OF that(1) [unfolded inj_def]])
    show "take 16 (sha256_hex p (hash_data p xs)) = take 16 (sha256_hex p (hash_data p ys))"
      using that(2) by (simp add: hashTasks_def)
  qed simp_all
  have same: "hashTasks p xs = hashTasks p ys" if F
    using fwd [OF that] by (simp add: hashTasks_def)
  have "(F \<longrightarrow> hashTasks p xs = hashTasks p ys) \<and>
     (free \<longrightarrow> (hash_data p xs = hash_data p ys \<longleftrightarrow> F) \<and>
        (\<not> F \<and> inj \<longrightarrow> hashTasks p xs \<noteq> hashTasks p ys))"
    using fwd bwd digest same by blast
  then show ?thesis unfolding F_def free_def inj_def .
qed

subsection \<open>The drift check\<close>

text \<open>
  C3, as amended (drift check): for two sets of records with unique ids, the diff is empty
  exactly when both sides have the same ids and every shared id agrees on status,
  priority, owner (null and the empty string alike) and title; the exit code is 0 for an
  empty diff and 1 otherwise; and when the notes agree as well, the diff is empty, the exit
  code is 0 and the two fingerprints are equal.
\<close>

theorem drift_check_on_compared_fields:
  assumes fkey: "distinct (map tid f)" and dkey: "distinct (map tid dbt)"
    and tot: "\<forall>a b. localeCompare p a b \<le> 0 \<or> localeCompare p b a \<le> 0"
    and tr: "\<forall>a b c. localeCompare p a b \<le> 0 \<longrightarrow> localeCompare p b c \<le> 0 \<longrightarrow> localeCompare p a c \<le> 0"
    and sep: "\<forall>a\<in>set f. \<forall>b\<in>set f.
               localeCompare p (tid a) (tid b) \<le> 0 \<longrightarrow> localeCompare p (tid b) (tid a) \<le> 0 \<longrightarrow> tid a = tid b"
  shows
    "(report_diffs (check_mode p f dbt (diffTasks f dbt)) = [] \<longleftrightarrow>
        tid ` set f = tid ` set dbt \<and>
        (\<forall>ft\<in>set f. \<forall>dt\<in>set dbt. tid ft = tid dt \<longrightarrow> same_compared ft dt)) \<and>
     exit_code (check_mode p f dbt (diffTasks f dbt)) =
        (if report_diffs (check_mode p f dbt (diffTasks f dbt)) = [] then 0 else 1) \<and>
     (tid ` set f = tid ` set dbt \<and>
      (\<forall>ft\<in>set f. \<forall>dt\<in>set dbt. tid ft = tid dt \<longrightarrow> same_compared ft dt \<and> same_notes ft dt) \<longrightarrow>
        report_diffs (check_mode p f dbt (diffTasks f dbt)) = [] \<and>
        exit_code (check_mode p f dbt (diffTasks f dbt)) = 0 \<and>
        file_hash (check_mode p f dbt (diffTasks f dbt)) =
          store_hash (check_mode p f dbt (diffTasks f dbt)))"
proof (intro conjI impI)
  show "report_diffs (check_mode p f dbt (diffTasks f dbt)) = [] \<longleftrightarrow>
        tid ` set f = tid ` set dbt \<and>
        (\<forall>ft\<in>set f. \<forall>dt\<in>set dbt. tid ft = tid dt \<longrightarrow> same_compared ft dt)"
    by (simp add: check_mode_def diffTasks_Nil [OF fkey dkey])
  show "exit_code (check_mode p f dbt (diffTasks f dbt)) =
        (if report_diffs (check_mode p f dbt (diffTasks f dbt)) = [] then 0 else 1)"
    by (simp add: check_mode_def)
next
  assume a: "tid ` set f = tid ` set dbt \<and>
      (\<forall>ft\<in>set f. \<forall>dt\<in>set dbt. tid ft = tid dt \<longrightarrow> same_compared ft dt \<and> same_notes ft dt)"
  then have nil: "diffTasks f dbt = []" by (simp add: diffTasks_Nil [OF fkey dkey])
  then show "report_diffs (check_mode p f dbt (diffTasks f dbt)) = []"
    "exit_code (check_mode p f dbt (diffTasks f dbt)) = 0"
    by (simp_all add: check_mode_def)
  from a have "hash_data p f = hash_data p dbt"
    by (intro hash_data_field_equal [OF fkey dkey tot tr sep]) auto
  then show "file_hash (check_mode p f dbt (diffTasks f dbt)) =
          store_hash (check_mode p f dbt (diffTasks f dbt))"
    by (simp add: check_mode_def hashTasks_def)
qed

lemma parse_backlog: "parseAllFiles fs_backlog = [task_a (js ''backlog'') None]"
  by (simp add: parse_defs fs_backlog_def task_line_def task_a_def)

lemma parse_in_progress: "parseAllFiles fs_in_progress = [task_a (js ''in_progress'') None]"
  by (simp add: parse_defs fs_in_progress_def task_line_def task_a_def)

lemma parse_done: "parseAllFiles fs_done = [task_a (js ''done'') None]"
  by (simp add: parse_defs fs_done_def task_a_def)

lemma parse_new_note: "parseAllFiles fs_new_note = [task_a (js ''in_progress'') (Some (js ''new note''))]"
  by (simp add: parse_defs fs_new_note_def task_line_def task_a_def)

lemma parse_blank_note: "parseAllFiles fs_blank_note = [task_a (js ''in_progress'') (Some [])]"
  by (simp add: parse_defs fs_blank_note_def task_a_def)

lemma parse_bad_priority: "parseAllFiles fs_bad_priority = [task_a (js ''backlog'') None, task_b]"
  by (simp add: parse_defs fs_bad_priority_def task_line_def task_a_def task_b_def)

lemmas input_defs = empty_store_def task_a_def task_b_def row_a_def proj_row_def released_def
  sync_transition_def

lemma run_backlog:
  "run_files_to_db test_platform 1793613600000 fs_backlog empty_store = (0, store_backlog)"
  by (simp add: parse_backlog sync_defs lock_defs input_defs store_backlog_def time_defs)

lemma run_in_progress:
  "run_files_to_db test_platform 1793617200000 fs_in_progress store_backlog = (0, store_in_progress)"
  by (simp add: parse_in_progress sync_defs lock_defs input_defs store_backlog_def
      store_in_progress_def time_defs)

lemma run_done:
  "run_files_to_db test_platform 1793620800000 fs_done store_in_progress = (0, store_done)"
  by (simp add: parse_done sync_defs lock_defs input_defs store_done_def
      store_in_progress_def time_defs)

lemma run_no_note:
  "fst (run_files_to_db test_platform 1793617200000 fs_in_progress store_noted) = 0"
  by (simp add: parse_in_progress sync_defs lock_defs input_defs store_noted_def time_defs)

lemma run_new_note:
  "fst (run_files_to_db test_platform 1793617200000 fs_new_note store_noted) = 0"
  by (simp add: parse_new_note sync_defs lock_defs input_defs store_noted_def time_defs)

lemma run_blank_note:
  "fst (run_files_to_db test_platform 1793617200000 fs_blank_note store_noted) = 0"
  "map status (tasks_v2 (snd (run_files_to_db test_platform 1793617200000 fs_blank_note store_noted)))
     = [js ''in_progress'']"
  "map notes' (tasks_v2 (snd (run_files_to_db test_platform 1793617200000 fs_blank_note store_noted)))
     = [Some []]"
  by (simp_all add: parse_blank_note sync_defs lock_defs input_defs store_noted_def time_defs)

lemma run_bad_priority:
  "run_files_to_db test_platform 1793613600000 fs_bad_priority empty_store = (1, store_partial)"
  by (simp add: parse_bad_priority sync_defs lock_defs input_defs store_partial_def time_defs)

subsection \<open>The comparator of the test platform\<close>

lemma binary_less_irrefl: "\<not> binary_less a a"
  by (induction a) auto

lemma binary_less_trans: "binary_less a b \<Longrightarrow> binary_less b c \<Longrightarrow> binary_less a c"
proof (induction a b arbitrary: c rule: binary_less.induct)
  case (2 y ys)
  then show ?case by (cases c) auto
next
  case (4 x xs y ys)
  then show ?case by (cases c) auto
qed simp_all

lemma binary_less_total: "a = b \<or> binary_less a b \<or> binary_less b a"
  by (induction a b rule: binary_less.induct) auto

lemma test_localeCompare: "localeCompare test_platform a b \<le> 0 \<longleftrightarrow> a = b \<or> binary_less a b"
  by (simp add: test_platform_def)

lemma test_platform_total:
  "\<forall>a b. localeCompare test_platform a b \<le> 0 \<or> localeCompare test_platform b a \<le> 0"
  unfolding test_localeCompare using binary_less_total by blast

lemma test_platform_trans:
  "\<forall>a b c. localeCompare test_platform a b \<le> 0 \<longrightarrow> localeCompare test_platform b c \<le> 0 \<longrightarrow>
     localeCompare test_platform a c \<le> 0"
  unfolding test_localeCompare using binary_less_trans by blast

lemma test_platform_separates:
  "\<forall>a\<in>set xs. \<forall>b\<in>set xs.
     localeCompare test_platform (tid a) (tid b) \<le> 0 \<longrightarrow>
     localeCompare test_platform (tid b) (tid a) \<le> 0 \<longrightarrow> tid a = tid b"
  unfolding test_localeCompare by (metis binary_less_trans binary_less_irrefl)

subsection \<open>The apply on concrete inputs\<close>

lemma lease_bad_priority:
  "acquireLock (js ''files-to-db'') 1793613600000 empty_store =
     (None, empty_store\<lparr>sync_state := Some (empty_sync_row\<lparr>
        lock_owner := Some (js ''task-sync:files-to-db''),
        lock_until := Some (js ''2026-11-02T10:01:00.000Z'')\<rparr>)\<rparr>)"
  by (simp add: lock_defs empty_store_def time_defs)

text \<open>
  The claim C2 as stated fails: the text declares \<^verbatim>\<open>proj-001\<close> and, with the priority
  \<^verbatim>\<open>P5\<close> that the store's \<^verbatim>\<open>CHECK\<close> refuses, \<^verbatim>\<open>proj-002\<close>. The run exits with 1 and the
  store, empty before, holds \<^verbatim>\<open>proj-001\<close>.
\<close>

theorem apply_not_all_or_nothing:
  "fst (run_files_to_db test_platform 1793613600000 fs_bad_priority empty_store) = 1 \<and>
   map tid (parseAllFiles fs_bad_priority) = [js ''proj-001'', js ''proj-002''] \<and>
   tasks_v2 empty_store = [] \<and>
   map tid (tasks_v2 (snd (run_files_to_db test_platform 1793613600000 fs_bad_priority empty_store)))
     = [js ''proj-001'']"
  by (simp add: run_bad_priority parse_bad_priority)
     (simp add: store_partial_def input_defs)

text \<open>The failing run above, as an instance of the theorem.\<close>

theorem apply_stops_at_failing_statement_witness:
  "run_files_to_db test_platform 1793613600000 fs_bad_priority empty_store = (1, store_partial) \<and>
   (\<exists>ys x zs e d2.
      diffTasks (parseAllFiles fs_bad_priority) (getDbTasks empty_store) = ys @ x # zs \<and>
      apply_diffs 1793613600000 ys
        (create_missing_projects 1793613600000 (map p_id (projects empty_store)) []
          (parseAllFiles fs_bad_priority)
          (empty_store\<lparr>sync_state := Some (empty_sync_row\<lparr>
             lock_owner := Some (js ''task-sync:files-to-db''),
             lock_until := Some (js ''2026-11-02T10:01:00.000Z'')\<rparr>)\<rparr>)) = (None, d2) \<and>
      apply_diff 1793613600000 x d2 = (Some e, d2) \<and>
      store_partial = releaseLock (js ''failed: '' @ error_message test_platform e) 1793613600000 d2)"
  using apply_stops_at_failing_statement [OF lease_bad_priority run_bad_priority] run_bad_priority by simp

text \<open>The scenario of the specification: \<^verbatim>\<open>proj-001\<close> is added, then the same text applied again.\<close>

theorem second_apply_changes_nothing_witness:
  "run_files_to_db test_platform 1793613600000 fs_backlog empty_store = (0, store_backlog) \<and>
   distinct (map tid (tasks_v2 empty_store)) \<and>
   (\<exists>d'' s' s''.
      run_files_to_db test_platform 1793617200000 fs_backlog store_backlog = (0, d'') \<and>
      tasks_v2 d'' = tasks_v2 store_backlog \<and>
      task_transitions_v2 d'' = task_transitions_v2 store_backlog \<and>
      projects d'' = projects store_backlog \<and>
      sync_state store_backlog = Some s' \<and> sync_state d'' = Some s'' \<and>
      files_hash s' = Some (hashTasks test_platform (parseAllFiles fs_backlog)) \<and>
      db_hash s' = Some (hashTasks test_platform (getDbTasks store_backlog)) \<and>
      files_hash s'' = files_hash s' \<and> db_hash s'' = db_hash s')"
proof -
  have key: "distinct (map tid (tasks_v2 empty_store))" by (simp add: empty_store_def)
  from second_apply_changes_nothing [OF run_backlog key, of 1793617200000] run_backlog key show ?thesis by simp
qed

lemma task_map_single: "task_map [t] = [(tid t, t)]"
  by (simp add: task_map_def new_Map_def)

text \<open>
  A stored note survives an apply that moves the task and carries no note, and is replaced
  by an apply that carries one.
\<close>

lemma changed_record_note_example:
  "fst (run_files_to_db test_platform 1793617200000 fs_in_progress store_noted) = 0 \<and>
   fst (run_files_to_db test_platform 1793617200000 fs_new_note store_noted) = 0 \<and>
   (\<exists>r'. filter (\<lambda>x. tid x = js ''proj-001'')
           (tasks_v2 (snd (run_files_to_db test_platform 1793617200000 fs_in_progress store_noted)))
           = [r'] \<and> notes' r' = Some (js ''keep me'')) \<and>
   (\<exists>r'. filter (\<lambda>x. tid x = js ''proj-001'')
           (tasks_v2 (snd (run_files_to_db test_platform 1793617200000 fs_new_note store_noted)))
           = [r'] \<and> notes' r' = Some (js ''new note''))"
proof -
  let ?r = "row_a (js ''backlog'') (Some (js ''keep me'')) (js ''2026-11-02T10:00:00.000Z'')
                  (js ''2026-11-02T10:00:00.000Z'')"
  have key: "distinct (map tid (tasks_v2 store_noted))" by (simp add: store_noted_def)
  have row: "?r \<in> set (tasks_v2 store_noted)" "tid ?r = js ''proj-001''"
    by (simp_all add: store_noted_def row_a_def)
  have run1: "run_files_to_db test_platform 1793617200000 fs_in_progress store_noted =
      (0, snd (run_files_to_db test_platform 1793617200000 fs_in_progress store_noted))"
    using run_no_note by (metis prod.collapse)
  have run2: "run_files_to_db test_platform 1793617200000 fs_new_note store_noted =
      (0, snd (run_files_to_db test_platform 1793617200000 fs_new_note store_noted))"
    using run_new_note by (metis prod.collapse)
  have f1: "map_of (task_map (parseAllFiles fs_in_progress)) (js ''proj-001'') =
      Some (task_a (js ''in_progress'') None)"
    by (simp add: parse_in_progress task_map_single) (simp add: task_a_def)
  have f2: "map_of (task_map (parseAllFiles fs_new_note)) (js ''proj-001'') =
      Some (task_a (js ''in_progress'') (Some (js ''new note'')))"
    by (simp add: parse_new_note task_map_single) (simp add: task_a_def)
  have ch1: "field_changes (task_a (js ''in_progress'') None) (task.truncate ?r) \<noteq> []"
    by (simp add: field_changes_def task_a_def row_a_def task.truncate_def js_def)
  have ch2: "field_changes (task_a (js ''in_progress'') (Some (js ''new note''))) (task.truncate ?r) \<noteq> []"
    by (simp add: field_changes_def task_a_def row_a_def task.truncate_def js_def)
  from changed_record_note [OF run1 key f1 row ch1] changed_record_note [OF run2 key f2 row ch2] run_no_note run_new_note
  show ?thesis by (simp add: task_a_def row_a_def)
qed

text \<open>
  C6 (one-way notes: for every changed record the incoming note replaces the stored note
  only when it is non-empty; an empty or absent incoming note leaves the stored note
  unchanged). The code at a failing input: the store holds \<^verbatim>\<open>proj-001\<close> in the backlog with
  the note \<^verbatim>\<open>keep me\<close>; the text moves the task to In Progress, and its note line has
  nothing but a space after \<^verbatim>\<open>note:\<close>. The parser yields the empty string for that note,
  the run succeeds and moves the task, and the stored note is the empty string afterwards.
\<close>

theorem blank_note_erases_stored_note:
  "parseAllFiles fs_blank_note = [task_a (js ''in_progress'') (Some [])] \<and>
   map tid (tasks_v2 store_noted) = [js ''proj-001''] \<and>
   map status (tasks_v2 store_noted) = [js ''backlog''] \<and>
   map notes' (tasks_v2 store_noted) = [Some (js ''keep me'')] \<and>
   fst (run_files_to_db test_platform 1793617200000 fs_blank_note store_noted) = 0 \<and>
   map status (tasks_v2 (snd (run_files_to_db test_platform 1793617200000 fs_blank_note store_noted)))
     = [js ''in_progress''] \<and>
   map notes' (tasks_v2 (snd (run_files_to_db test_platform 1793617200000 fs_blank_note store_noted)))
     = [Some []]"
  by (simp add: run_blank_note parse_blank_note) (simp add: store_noted_def row_a_def)

lemma parse_no_tasks: "parseAllFiles fs_no_tasks = []"
  by (simp add: parse_defs fs_no_tasks_def)

text \<open>The text no longer declares \<^verbatim>\<open>proj-001\<close>; its row stays.\<close>

theorem absent_record_untouched_witness:
  "js ''proj-001'' \<notin> tid ` set (parseAllFiles fs_no_tasks) \<and>
   filter (\<lambda>r. tid r = js ''proj-001'')
     (tasks_v2 (snd (run_files_to_db test_platform 1793617200000 fs_no_tasks store_backlog))) =
   [row_a (js ''backlog'') None (js ''2026-11-02T10:00:00.000Z'') (js ''2026-11-02T10:00:00.000Z'')]"
proof -
  have h: "js ''proj-001'' \<notin> tid ` set (parseAllFiles fs_no_tasks)" by (simp add: parse_no_tasks)
  from absent_record_untouched [OF h, of test_platform 1793617200000 store_backlog] h show ?thesis
    by (simp add: store_backlog_def row_a_def)
qed

lemma lease_empty: "fst (acquireLock (js ''files-to-db'') 1793613600000 empty_store) = None"
  by (simp add: lock_defs empty_store_def)

lemma lease_backlog: "fst (acquireLock (js ''files-to-db'') 1793617200000 store_backlog) = None"
  by (simp add: lock_defs store_backlog_def released_def)

lemma lease_in_progress: "fst (acquireLock (js ''files-to-db'') 1793620800000 store_in_progress) = None"
  by (simp add: lock_defs store_in_progress_def released_def)

text \<open>
  \<^verbatim>\<open>proj-001\<close> is added to the empty store: the run succeeds and appends one transition
  with no previous status. It then moves from backlog to in progress to done in two
  applies: exactly two transitions are appended, in that order.
\<close>

theorem transitions_appended_on_status_witness:
  "fst (acquireLock (js ''files-to-db'') 1793613600000 empty_store) = None \<and>
   map status (parseAllFiles fs_backlog) = [js ''backlog''] \<and>
   map priority (parseAllFiles fs_backlog) = [js ''P2''] \<and>
   valid_status (js ''backlog'') \<and> valid_priority (js ''P2'') \<and>
   distinct (map tid (tasks_v2 empty_store)) \<and>
   fst (run_files_to_db test_platform 1793613600000 fs_backlog empty_store) = 0 \<and>
   task_transitions_v2 empty_store = [] \<and>
   filter (\<lambda>y. task_id y = js ''proj-001'')
     (task_transitions_v2 (snd (run_files_to_db test_platform 1793613600000 fs_backlog empty_store))) =
     [sync_transition None (js ''backlog'') (js ''added via file sync'')
        (js ''2026-11-02T10:00:00.000Z'')] \<and>
   run_files_to_db test_platform 1793613600000 fs_backlog empty_store = (0, store_backlog) \<and>
   run_files_to_db test_platform 1793617200000 fs_in_progress store_backlog = (0, store_in_progress) \<and>
   run_files_to_db test_platform 1793620800000 fs_done store_in_progress = (0, store_done) \<and>
   distinct (map tid (tasks_v2 store_backlog)) \<and>
   distinct (map tid (tasks_v2 store_in_progress)) \<and>
   filter (\<lambda>y. task_id y = js ''proj-001'') (task_transitions_v2 store_done) =
     filter (\<lambda>y. task_id y = js ''proj-001'') (task_transitions_v2 store_backlog) @
     [sync_transition (Some (js ''backlog'')) (js ''in_progress'')
        (js ''file sync: status: backlog'' @ arrow @ js ''in_progress'')
        (js ''2026-11-02T11:00:00.000Z''),
      sync_transition (Some (js ''in_progress'')) (js ''done'')
        (js ''file sync: status: in_progress'' @ arrow @ js ''done'')
        (js ''2026-11-02T12:00:00.000Z'')] \<and>
   length (task_transitions_v2 store_done) = length (task_transitions_v2 store_backlog) + 2"
proof -
  let ?run0 = "run_files_to_db test_platform 1793613600000 fs_backlog empty_store"
  have k0: "distinct (map tid (tasks_v2 empty_store))" by (simp add: empty_store_def)
  have k1: "distinct (map tid (tasks_v2 store_backlog))" by (simp add: store_backlog_def)
  have k2: "distinct (map tid (tasks_v2 store_in_progress))" by (simp add: store_in_progress_def)
  have v: "valid_status (js ''backlog'')" "valid_priority (js ''P2'')"
    by (simp_all add: valid_status_def valid_priority_def)
  have f: "map status (parseAllFiles fs_backlog) = [js ''backlog'']"
    "map priority (parseAllFiles fs_backlog) = [js ''P2'']"
    by (simp_all add: parse_backlog task_a_def)
  have va: "\<forall>t\<in>set (parseAllFiles fs_backlog). valid_status (status t) \<and> valid_priority (priority t)"
    using v by (simp add: parse_backlog task_a_def)
  have r0: "?run0 = (fst ?run0, snd ?run0)" by simp
  note c0 = transitions_appended_on_status [OF r0 k0, of "js ''proj-001''"]
  from c0 [THEN conjunct1] lease_empty va have ok: "fst ?run0 = 0" by blast
  have Z: "filter (\<lambda>y. task_id y = js ''proj-001'') (task_transitions_v2 (snd ?run0)) =
     [sync_transition None (js ''backlog'') (js ''added via file sync'')
        (js ''2026-11-02T10:00:00.000Z'')]"
    using c0 [THEN conjunct2, rule_format, OF ok, THEN conjunct2]
    by (simp add: parse_backlog task_map_single task_a_def empty_store_def
        sync_transition_def time_defs)
  have A: "filter (\<lambda>y. task_id y = js ''proj-001'') (task_transitions_v2 store_in_progress) =
     filter (\<lambda>y. task_id y = js ''proj-001'') (task_transitions_v2 store_backlog) @
     [sync_transition (Some (js ''backlog'')) (js ''in_progress'')
        (js ''file sync: status: backlog'' @ arrow @ js ''in_progress'')
        (js ''2026-11-02T11:00:00.000Z'')]"
    using transitions_appended_on_status [OF run_in_progress k1, of "js ''proj-001''", THEN conjunct2, rule_format, OF refl, THEN conjunct2]
    by (simp add: parse_in_progress task_map_single task_a_def store_backlog_def row_a_def
        field_changes_def sync_transition_def task.truncate_def or_null_def arrow_def time_defs)
  have B: "filter (\<lambda>y. task_id y = js ''proj-001'') (task_transitions_v2 store_done) =
     filter (\<lambda>y. task_id y = js ''proj-001'') (task_transitions_v2 store_in_progress) @
     [sync_transition (Some (js ''in_progress'')) (js ''done'')
        (js ''file sync: status: in_progress'' @ arrow @ js ''done'')
        (js ''2026-11-02T12:00:00.000Z'')]"
    using transitions_appended_on_status [OF run_done k2, of "js ''proj-001''", THEN conjunct2, rule_format, OF refl, THEN conjunct2]
    by (simp add: parse_done task_map_single task_a_def store_in_progress_def row_a_def
        field_changes_def sync_transition_def task.truncate_def or_null_def arrow_def time_defs)
  have L: "length (task_transitions_v2 store_done) = length (task_transitions_v2 store_backlog) + 2"
    by (simp add: store_done_def store_backlog_def)
  have E: "task_transitions_v2 empty_store = []" by (simp add: empty_store_def)
  show ?thesis
    unfolding B A using lease_empty f v k0 ok E Z run_backlog run_in_progress run_done k1 k2 L
    by simp
qed

subsection \<open>The drift check and the fingerprint on concrete inputs\<close>

text \<open>
  The claim C3 as stated fails for a difference in the note: the two sides differ in it (and
  so do the texts their fingerprints digest), and the check reports no diff and exits with 0.
\<close>

theorem drift_check_ignores_notes:
  "notes' (task_a (js ''backlog'') None) \<noteq> notes' (task_a (js ''backlog'') (Some (js ''a note''))) \<and>
   report_diffs (check_mode test_platform [task_a (js ''backlog'') None]
       [task_a (js ''backlog'') (Some (js ''a note''))]
       (diffTasks [task_a (js ''backlog'') None] [task_a (js ''backlog'') (Some (js ''a note''))])) = [] \<and>
   exit_code (check_mode test_platform [task_a (js ''backlog'') None]
       [task_a (js ''backlog'') (Some (js ''a note''))]
       (diffTasks [task_a (js ''backlog'') None] [task_a (js ''backlog'') (Some (js ''a note''))])) = 0 \<and>
   hash_data test_platform [task_a (js ''backlog'') None] \<noteq>
     hash_data test_platform [task_a (js ''backlog'') (Some (js ''a note''))]"
  by (simp add: check_mode_def diffTasks_def task_map_single diff_file_entry_def diff_db_entry_def
      field_changes_def task_a_def hash_data_def hash_line_def sort_by_def or_empty_def js_def)

text \<open>
  Two sides in different order that agree on every compared field and note are in sync with
  equal fingerprints; two sides that differ in status are not.
\<close>

theorem drift_check_on_compared_fields_witness:
  "exit_code (check_mode test_platform [task_a (js ''backlog'') None, task_b]
      [task_b, task_a (js ''backlog'') (Some [])]
      (diffTasks [task_a (js ''backlog'') None, task_b] [task_b, task_a (js ''backlog'') (Some [])])) = 0 \<and>
   file_hash (check_mode test_platform [task_a (js ''backlog'') None, task_b]
      [task_b, task_a (js ''backlog'') (Some [])]
      (diffTasks [task_a (js ''backlog'') None, task_b] [task_b, task_a (js ''backlog'') (Some [])])) =
   store_hash (check_mode test_platform [task_a (js ''backlog'') None, task_b]
      [task_b, task_a (js ''backlog'') (Some [])]
      (diffTasks [task_a (js ''backlog'') None, task_b] [task_b, task_a (js ''backlog'') (Some [])])) \<and>
   exit_code (check_mode test_platform [task_a (js ''backlog'') None]
      [task_a (js ''done'') None]
      (diffTasks [task_a (js ''backlog'') None] [task_a (js ''done'') None])) = 1"
proof -
  let ?f = "[task_a (js ''backlog'') None, task_b]"
  let ?d = "[task_b, task_a (js ''backlog'') (Some [])]"
  have k: "distinct (map tid ?f)" "distinct (map tid ?d)"
    by (simp_all add: task_a_def task_b_def js_def)
  have e: "tid ` set ?f = tid ` set ?d \<and>
      (\<forall>ft\<in>set ?f. \<forall>dt\<in>set ?d. tid ft = tid dt \<longrightarrow> same_compared ft dt \<and> same_notes ft dt)"
    by (auto simp: task_a_def task_b_def js_def same_compared_def same_notes_def or_null_def)
  let ?f2 = "[task_a (js ''backlog'') None]" and ?d2 = "[task_a (js ''done'') None]"
  have k2: "distinct (map tid ?f2)" "distinct (map tid ?d2)" by simp_all
  have ne: "\<not> (tid ` set ?f2 = tid ` set ?d2 \<and>
      (\<forall>ft\<in>set ?f2. \<forall>dt\<in>set ?d2. tid ft = tid dt \<longrightarrow> same_compared ft dt))"
    by (simp add: task_a_def same_compared_def js_def)
  from drift_check_on_compared_fields [OF k test_platform_total test_platform_trans test_platform_separates] e
    drift_check_on_compared_fields [OF k2 test_platform_total test_platform_trans test_platform_separates] ne
  show ?thesis by presburger
qed

lemma fingerprint_collision: "hashTasks p [pipe_in_title] = hashTasks p [pipe_in_note]"
  by (simp add: hashTasks_def hash_data_def sort_by_def hash_line_def pipe_in_title_def
      pipe_in_note_def or_empty_def js_def)

text \<open>
  The second half of C9 as stated fails: two records that differ in title and note have
  the same canonical text, hence the same fingerprint, whatever the digest.
\<close>

theorem fingerprint_collision_on_delimiter:
  "title pipe_in_title \<noteq> title pipe_in_note \<and> notes' pipe_in_title \<noteq> notes' pipe_in_note \<and>
   hash_data test_platform [pipe_in_title] = hash_data test_platform [pipe_in_note] \<and>
   hashTasks test_platform [pipe_in_title] = hashTasks test_platform [pipe_in_note]"
  by (simp add: fingerprint_collision)
     (simp add: hash_data_def sort_by_def hash_line_def pipe_in_title_def pipe_in_note_def
        or_empty_def js_def)

text \<open>
  Two field-equal sets in different order, one with a null note and one with an empty one,
  have the same fingerprint; two delimiter-free records that differ in status have
  different canonical texts and, the digest telling these apart, different fingerprints.
\<close>

theorem fingerprint_on_projected_fields_witness:
  "distinct (map tid [task_a (js ''backlog'') None, task_b]) \<and>
   distinct (map tid [task_b, task_a (js ''backlog'') (Some [])]) \<and>
   hashTasks test_platform [task_a (js ''backlog'') None, task_b] =
     hashTasks test_platform [task_b, task_a (js ''backlog'') (Some [])] \<and>
   delimiter_free (task_a (js ''backlog'') None) \<and> delimiter_free (task_a (js ''done'') None) \<and>
   status (task_a (js ''backlog'') None) \<noteq> status (task_a (js ''done'') None) \<and>
   hash_data test_platform [task_a (js ''backlog'') None] \<noteq>
     hash_data test_platform [task_a (js ''done'') None] \<and>
   hashTasks test_platform [task_a (js ''backlog'') None] \<noteq>
     hashTasks test_platform [task_a (js ''done'') None]"
proof -
  let ?f = "[task_a (js ''backlog'') None, task_b]"
  let ?d = "[task_b, task_a (js ''backlog'') (Some [])]"
  have k: "distinct (map tid ?f)" "distinct (map tid ?d)"
    by (simp_all add: task_a_def task_b_def js_def)
  have e: "tid ` set ?f = tid ` set ?d \<and>
      (\<forall>a\<in>set ?f. \<forall>b\<in>set ?d. tid a = tid b \<longrightarrow> same_compared a b \<and> same_notes a b)"
    by (auto simp: task_a_def task_b_def js_def same_compared_def same_notes_def or_null_def)
  let ?x = "[task_a (js ''backlog'') None]" and ?y = "[task_a (js ''done'') None]"
  have k2: "distinct (map tid ?x)" "distinct (map tid ?y)" by simp_all
  have fr: "delimiter_free (task_a (js ''backlog'') None)" "delimiter_free (task_a (js ''done'') None)"
    by (simp_all add: delimiter_free_def task_a_def or_empty_def js_def)
  then have free: "\<forall>t\<in>set ?x \<union> set ?y. delimiter_free t" by simp
  have st: "status (task_a (js ''backlog'') None) \<noteq> status (task_a (js ''done'') None)"
    by (simp add: task_a_def js_def)
  then have ne: "\<not> (tid ` set ?x = tid ` set ?y \<and>
      (\<forall>a\<in>set ?x. \<forall>b\<in>set ?y. tid a = tid b \<longrightarrow> same_compared a b \<and> same_notes a b))"
    by (simp add: task_a_def same_compared_def)
  have inj: "inj_on (\<lambda>s. take 16 (sha256_hex test_platform s))
      {hash_data test_platform ?x, hash_data test_platform ?y}"
    by (simp add: hash_data_def sort_by_def hash_line_def task_a_def or_empty_def js_def
        test_platform_def)
  note A = fingerprint_on_projected_fields [OF k test_platform_total test_platform_trans
      test_platform_separates]
  note B = fingerprint_on_projected_fields [OF k2 test_platform_total test_platform_trans
      test_platform_separates]
  from A e have same: "hashTasks test_platform ?f = hashTasks test_platform ?d" by blast
  from B free ne have texts: "hash_data test_platform ?x \<noteq> hash_data test_platform ?y" by blast
  from B free ne inj have prints: "hashTasks test_platform ?x \<noteq> hashTasks test_platform ?y" by blast
  from k same fr st texts prints show ?thesis by blast
qed

end
